theory Spec2Isabelle
  imports Main
begin

section \<open>The environment of the email service\<close>

text \<open>
  The service of \<^verbatim>\<open>src/EmailService.js\<close> talks to three things outside itself: the
  system clock (\<^verbatim>\<open>Date.now()\<close>), the timer (\<^verbatim>\<open>setTimeout\<close>) and the providers
  (\<^verbatim>\<open>sendEmail\<close>), and it prints to the console. They are gathered in a world that every
  operation takes and returns:
  \<^item> \<open>ext\<close> is the state of the providers' side (their back ends, the network, the
    random source of the mock provider); only a provider call changes it;
  \<^item> \<open>clock\<close> and \<open>reads\<close> are the clock: the \<open>k\<close>-th call of \<^verbatim>\<open>Date.now()\<close>
    returns \<open>clock k\<close>, whatever that is (nothing is assumed about the time that passes
    between two readings, not even that it grows);
  \<^item> \<open>trace\<close> records, in order, every provider call with its result (resolved or
    rejected), every delay handed to \<^verbatim>\<open>setTimeout\<close> and every line printed.
  Numbers are JavaScript numbers holding integers (milliseconds, counters): \<open>int\<close>.
\<close>

datatype event =
  Invoked nat bool      \<comment> \<open>\<^verbatim>\<open>sendEmail\<close> of the provider at this index was called; did it resolve?\<close>
| Slept int             \<comment> \<open>\<^verbatim>\<open>setTimeout(res, d)\<close> was awaited\<close>
| Logged string string  \<comment> \<open>\<^verbatim>\<open>console.log\<close> of a provider's name and \<^verbatim>\<open>err.message\<close>\<close>

record 'x world =
  ext :: 'x
  clock :: "nat \<Rightarrow> int"
  reads :: nat
  trace :: "event list"

definition dateNow :: "'x world \<Rightarrow> int \<times> 'x world" where
  "dateNow w = (clock w (reads w), w\<lparr>reads := Suc (reads w)\<rparr>)"

definition setTimeout :: "int \<Rightarrow> 'x world \<Rightarrow> 'x world" where
  "setTimeout d w = w\<lparr>trace := trace w @ [Slept d]\<rparr>"

definition console_log :: "string \<Rightarrow> string \<Rightarrow> 'x world \<Rightarrow> 'x world" where
  "console_log n msg w = w\<lparr>trace := trace w @ [Logged n msg]\<rparr>"

text \<open>
  A promise that rejects, or a call that throws, hands over a value. The service does one
  thing with it: it reads its \<^verbatim>\<open>message\<close>. That works on every value but \<^verbatim>\<open>undefined\<close>
  and \<^verbatim>\<open>null\<close>, on which reading a property throws a \<^verbatim>\<open>TypeError\<close>. So a thrown value
  is either \<open>Nullish\<close>, or \<open>Rejected m\<close> where \<open>m\<close> is what its \<^verbatim>\<open>message\<close> reads as
  (the text of an \<^verbatim>\<open>Error\<close>, or \<^verbatim>\<open>undefined\<close> for a value without one).
\<close>

datatype rejection = Rejected string | Nullish

datatype exception = TypeError

text \<open>
  A message has a recipient and a subject. A provider is an object with a name and a
  method \<^verbatim>\<open>sendEmail(email)\<close> whose promise either resolves with a text or rejects with
  a value. A call of the method returns: a promise that never settles is not modelled.
  The method acts on the providers' side of the world only.
\<close>

record email =
  to :: string
  subject :: string

record 'x provider =
  name :: string
  sendEmail :: "email \<Rightarrow> 'x \<Rightarrow> (rejection + string) \<times> 'x"

text \<open>
  \<open>calling i f\<close> is the call of a provider's method \<open>f\<close> as the world sees it: the
  provider acts on \<open>ext\<close>, and the call is recorded under the provider's index \<open>i\<close>
  together with whether it resolved.
\<close>

definition calling :: "nat \<Rightarrow> ('x \<Rightarrow> ('e + 'a) \<times> 'x) \<Rightarrow> 'x world \<Rightarrow> ('e + 'a) \<times> 'x world" where
  "calling i f w =
     (case f (ext w) of
        (r, x) \<Rightarrow> (r, w\<lparr>ext := x, trace := trace w @ [Invoked i (\<not> isl r)]\<rparr>))"

subsection \<open>MockEmailProvider\<close>

text \<open>
  \<^verbatim>\<open>if (this.shouldFail || Math.random() > 0.7) throw new Error(`${this.name} failed`);\<close>
  \<^verbatim>\<open>return `${this.name} sent email to ${email.to}`;\<close>
  The random source is the providers' side of the world: the \<open>k\<close>-th call of
  \<^verbatim>\<open>Math.random()\<close> yields a number above 0.7 exactly when \<open>above k\<close> holds. The draw
  is made only when \<open>shouldFail\<close> is false, as \<^verbatim>\<open>||\<close> evaluates.
\<close>

record random_source =
  above :: "nat \<Rightarrow> bool"
  drawn :: nat

definition MockEmailProvider_sendEmail ::
  "string \<Rightarrow> bool \<Rightarrow> email \<Rightarrow> random_source \<Rightarrow> (rejection + string) \<times> random_source" where
  "MockEmailProvider_sendEmail nm shouldFail e x =
     (if shouldFail then (Inl (Rejected (nm @ '' failed'')), x)
      else if above x (drawn x)
      then (Inl (Rejected (nm @ '' failed'')), x\<lparr>drawn := Suc (drawn x)\<rparr>)
      else (Inr (nm @ '' sent email to '' @ to e), x\<lparr>drawn := Suc (drawn x)\<rparr>))"

definition MockEmailProvider :: "string \<Rightarrow> bool \<Rightarrow> random_source provider" where
  "MockEmailProvider nm shouldFail =
     \<lparr>name = nm, sendEmail = MockEmailProvider_sendEmail nm shouldFail\<rparr>"

section \<open>RateLimiter\<close>

record rateLimiter =
  limit :: int
  interval :: int
  timestamps :: "int list"

definition RateLimiter :: "int \<Rightarrow> int \<Rightarrow> rateLimiter" where
  "RateLimiter l i = \<lparr>limit = l, interval = i, timestamps = []\<rparr>"

text \<open>
  \<^verbatim>\<open>allow()\<close>: read the clock, keep the timestamps \<open>ts\<close> with \<open>now - ts < interval\<close>,
  and admit (pushing \<open>now\<close>) when fewer than \<open>limit\<close> are left. The filtered list is
  stored in both branches.
\<close>

definition RateLimiter_allow :: "rateLimiter \<Rightarrow> 'x world \<Rightarrow> (bool \<times> rateLimiter) \<times> 'x world" where
  "RateLimiter_allow rl w =
     (case dateNow w of (now, w1) \<Rightarrow>
        (let kept = filter (\<lambda>ts. now - ts < interval rl) (timestamps rl) in
         if int (length kept) < limit rl
         then ((True, rl\<lparr>timestamps := kept @ [now]\<rparr>), w1)
         else ((False, rl\<lparr>timestamps := kept\<rparr>), w1)))"

section \<open>CircuitBreaker\<close>

record circuitBreaker =
  failureThreshold :: int
  recoveryTime :: int
  failures :: int
  lastFailureTime :: int

definition CircuitBreaker :: "int \<Rightarrow> int \<Rightarrow> circuitBreaker" where
  "CircuitBreaker th rt =
     \<lparr>failureThreshold = th, recoveryTime = rt, failures = 0, lastFailureTime = 0\<rparr>"

text \<open>
  \<^verbatim>\<open>allow()\<close> changes no field, so it returns the verdict only. The clock is read only
  when the failure count has reached the threshold (\<^verbatim>\<open>&&\<close> evaluates its right operand
  only then).
\<close>

definition CircuitBreaker_allow :: "circuitBreaker \<Rightarrow> 'x world \<Rightarrow> bool \<times> 'x world" where
  "CircuitBreaker_allow cb w =
     (if failureThreshold cb \<le> failures cb
      then (case dateNow w of (now, w1) \<Rightarrow>
              if now - lastFailureTime cb < recoveryTime cb then (False, w1) else (True, w1))
      else (True, w))"

definition recordFailure :: "circuitBreaker \<Rightarrow> 'x world \<Rightarrow> circuitBreaker \<times> 'x world" where
  "recordFailure cb w =
     (case dateNow w of (now, w1) \<Rightarrow>
        (cb\<lparr>failures := failures cb + 1, lastFailureTime := now\<rparr>, w1))"

definition reset :: "circuitBreaker \<Rightarrow> circuitBreaker" where
  "reset cb = cb\<lparr>failures := 0\<rparr>"

section \<open>EmailService\<close>

record ('i, 'x) emailService =
  providers :: "'x provider list"
  rateLimiter :: rateLimiter
  statusLog :: "'i \<rightharpoonup> string"
  sentEmails :: "'i set"
  circuitBreakers :: "circuitBreaker list"

text \<open>
  The constructor; the defaults of \<^verbatim>\<open>new CircuitBreaker()\<close> are 3 and 10000. It makes
  one breaker per provider, and no method changes the length of either list, so
  \<open>circuitBreakers s ! i\<close> below is the \<^verbatim>\<open>this.circuitBreakers[i]\<close> of the source for
  every index the loop of \<open>send\<close> reaches.
\<close>

definition EmailService :: "'x provider list \<Rightarrow> ('i, 'x) emailService" where
  "EmailService ps =
     \<lparr>providers = ps,
      rateLimiter = RateLimiter 5 10000,
      statusLog = Map.empty,
      sentEmails = {},
      circuitBreakers = map (\<lambda>_. CircuitBreaker 3 10000) ps\<rparr>"

definition trackStatus ::
  "'i \<Rightarrow> string \<Rightarrow> ('i, 'x) emailService \<Rightarrow> string \<times> ('i, 'x) emailService" where
  "trackStatus ident status s = (status, s\<lparr>statusLog := (statusLog s)(ident \<mapsto> status)\<rparr>)"

definition getStatus :: "'i \<Rightarrow> ('i, 'x) emailService \<Rightarrow> string option" where
  "getStatus ident s = statusLog s ident"

subsection \<open>retryWithBackoff\<close>

text \<open>
  The \<^verbatim>\<open>while (attempt < retries)\<close> loop, entered with \<open>attempt\<close>. A resolved call of
  \<open>fn\<close> returns its value at once; a rejected one counts the attempt, rethrows when
  \<open>attempt >= retries\<close> and otherwise awaits \<open>delay * 2 ** attempt\<close> and goes round
  again. A loop that is left by its condition falls off the end of the function, which
  resolves with \<^verbatim>\<open>undefined\<close>: \<open>Inr None\<close>.
\<close>

function retry_loop ::
  "('x world \<Rightarrow> ('e + 'a) \<times> 'x world) \<Rightarrow> int \<Rightarrow> int \<Rightarrow> int \<Rightarrow> 'x world
     \<Rightarrow> ('e + 'a option) \<times> 'x world" where
  "retry_loop fn retries delay attempt w =
     (if attempt < retries
      then (case fn w of
              (Inr v, w1) \<Rightarrow> (Inr (Some v), w1)
            | (Inl e, w1) \<Rightarrow>
                if retries \<le> attempt + 1 then (Inl e, w1)
                else retry_loop fn retries delay (attempt + 1)
                       (setTimeout (delay * 2 ^ nat (attempt + 1)) w1))
      else (Inr None, w))"
  by pat_completeness auto
termination
  by (relation "measure (\<lambda>(fn, retries, delay, attempt, w). nat (retries - attempt))") auto

declare retry_loop.simps [simp del]

definition retryWithBackoff ::
  "('x world \<Rightarrow> ('e + 'a) \<times> 'x world) \<Rightarrow> int \<Rightarrow> int \<Rightarrow> 'x world
     \<Rightarrow> ('e + 'a option) \<times> 'x world" where
  "retryWithBackoff fn retries delay w = retry_loop fn retries delay 0 w"

subsection \<open>send\<close>

text \<open>
  \<open>send\<close> is an \<^verbatim>\<open>async\<close> function: its promise resolves with the status it returns, or
  rejects with an exception thrown in its body. The only place of the body that can throw
  outside a \<^verbatim>\<open>try\<close> is the \<^verbatim>\<open>catch\<close> block, where \<^verbatim>\<open>err.message\<close> is read. So the result
  of \<open>send\<close> is \<open>Inr\<close> a status or \<open>Inl TypeError\<close>, with the service and the world as the
  call leaves them. \<open>returned\<close> is \<^verbatim>\<open>return this.trackStatus(...)\<close>.
\<close>

definition returned ::
  "string \<times> ('i, 'x) emailService \<Rightarrow> (exception + string) \<times> ('i, 'x) emailService" where
  "returned r = (Inr (fst r), snd r)"

text \<open>
  The \<^verbatim>\<open>for\<close> loop of \<^verbatim>\<open>send\<close>, entered with index \<open>i\<close>. The source calls
  \<^verbatim>\<open>this.retryWithBackoff(() => this.providers[i].sendEmail(email))\<close> with no further
  argument, so the defaults \<open>retries = 3\<close> and \<open>delay = 500\<close> of that method apply; the
  loop takes the two numbers as parameters and \<open>send\<close> below fixes them. In the
  \<^verbatim>\<open>catch\<close> block the arguments of \<^verbatim>\<open>console.log\<close> are evaluated before it is called: on
  a \<open>Nullish\<close> value reading \<^verbatim>\<open>err.message\<close> throws, nothing is printed, no failure is
  recorded and no status is stored.
\<close>

function send_loop ::
  "int \<Rightarrow> int \<Rightarrow> email \<Rightarrow> 'i \<Rightarrow> nat \<Rightarrow> ('i, 'x) emailService \<Rightarrow> 'x world
     \<Rightarrow> ((exception + string) \<times> ('i, 'x) emailService) \<times> 'x world" where
  "send_loop retries delay e ident i s w =
     (if i < length (providers s)
      then (case CircuitBreaker_allow (circuitBreakers s ! i) w of
              (False, w1) \<Rightarrow> send_loop retries delay e ident (Suc i) s w1
            | (True, w1) \<Rightarrow>
                (case retryWithBackoff (calling i (sendEmail (providers s ! i) e)) retries delay w1 of
                   (Inr v, w2) \<Rightarrow>
                     (let s1 = s\<lparr>sentEmails := insert ident (sentEmails s)\<rparr>;
                          s2 = s1\<lparr>circuitBreakers :=
                                  (circuitBreakers s1)[i := reset (circuitBreakers s1 ! i)]\<rparr>
                      in (returned (trackStatus ident (''Sent via '' @ name (providers s ! i)) s2), w2))
                 | (Inl err, w2) \<Rightarrow>
                     (case err of
                        Nullish \<Rightarrow> ((Inl TypeError, s), w2)
                      | Rejected msg \<Rightarrow>
                          (let w3 = console_log (name (providers s ! i)) msg w2 in
                           case recordFailure (circuitBreakers s ! i) w3 of
                             (cb, w4) \<Rightarrow>
                               send_loop retries delay e ident (Suc i)
                                 (s\<lparr>circuitBreakers := (circuitBreakers s)[i := cb]\<rparr>) w4))))
      else (returned (trackStatus ident ''All providers failed'' s), w))"
  by pat_completeness auto
termination
  by (relation "measure (\<lambda>(retries, delay, e, ident, i, s, w). length (providers s) - i)") auto

declare send_loop.simps [simp del]

definition send_with ::
  "int \<Rightarrow> int \<Rightarrow> email \<Rightarrow> 'i \<Rightarrow> ('i, 'x) emailService \<Rightarrow> 'x world
     \<Rightarrow> ((exception + string) \<times> ('i, 'x) emailService) \<times> 'x world" where
  "send_with retries delay e ident s w =
     (case RateLimiter_allow (rateLimiter s) w of
        ((ok, rl), w1) \<Rightarrow>
          (let s1 = s\<lparr>rateLimiter := rl\<rparr> in
           if \<not> ok then (returned (trackStatus ident ''Rate limited'' s1), w1)
           else if ident \<in> sentEmails s1
           then (returned (trackStatus ident ''Duplicate skipped'' s1), w1)
           else send_loop retries delay e ident 0 s1 w1))"

definition send ::
  "email \<Rightarrow> 'i \<Rightarrow> ('i, 'x) emailService \<Rightarrow> 'x world
     \<Rightarrow> ((exception + string) \<times> ('i, 'x) emailService) \<times> 'x world" where
  "send e ident s w = send_with 3 500 e ident s w"

section \<open>Runs and observations\<close>

text \<open>
  What follows is not code of the service: it names the things the properties below speak
  about. \<open>invocations\<close>, \<open>resolved\<close> and \<open>delays\<close> read a trace: the providers called, the
  number of provider calls that resolved, the delays awaited. \<open>allow_calls\<close> and \<open>sends\<close>
  are a caller making several calls one after the other, as the loop at the end of the
  source file does with \<^verbatim>\<open>await service.send(...)\<close>; \<open>sends\<close> notes for every call its
  result and the number of provider calls that resolved during it, and goes on after a
  call that threw.
\<close>

fun invocations :: "event list \<Rightarrow> nat list" where
  "invocations [] = []"
| "invocations (Invoked i b # evs) = i # invocations evs"
| "invocations (ev # evs) = invocations evs"

fun resolved :: "event list \<Rightarrow> nat" where
  "resolved [] = 0"
| "resolved (Invoked i True # evs) = Suc (resolved evs)"
| "resolved (ev # evs) = resolved evs"

fun delays :: "event list \<Rightarrow> int list" where
  "delays [] = []"
| "delays (Slept d # evs) = d # delays evs"
| "delays (ev # evs) = delays evs"

fun allow_calls :: "nat \<Rightarrow> rateLimiter \<Rightarrow> 'x world \<Rightarrow> bool list \<times> rateLimiter \<times> 'x world" where
  "allow_calls 0 rl w = ([], rl, w)"
| "allow_calls (Suc n) rl w =
     (case RateLimiter_allow rl w of
        ((b, rl1), w1) \<Rightarrow>
          (case allow_calls n rl1 w1 of (bs, rl2, w2) \<Rightarrow> (b # bs, rl2, w2)))"

fun sends ::
  "(email \<times> 'i) list \<Rightarrow> ('i, 'x) emailService \<Rightarrow> 'x world
     \<Rightarrow> ((exception + string) \<times> nat) list \<times> ('i, 'x) emailService \<times> 'x world" where
  "sends [] s w = ([], s, w)"
| "sends ((e, ident) # reqs) s w =
     (case send e ident s w of
        ((out, s1), w1) \<Rightarrow>
          (case sends reqs s1 w1 of
             (obs, s2, w2) \<Rightarrow>
               ((out, resolved (drop (length (trace w)) (trace w1))) # obs, s2, w2)))"

text \<open>
  The success outcomes are the texts that begin with \<^verbatim>\<open>Sent via \<close>; a call of \<open>send\<close>
  succeeded when it returned one of them.
\<close>

definition sent_outcome :: "string \<Rightarrow> bool" where
  "sent_outcome out = (take 9 out = ''Sent via '')"

definition sent_result :: "exception + string \<Rightarrow> bool" where
  "sent_result r = (case r of Inl _ \<Rightarrow> False | Inr out \<Rightarrow> sent_outcome out)"

text \<open>
  The state of the providers' side after \<open>j\<close> calls of a method \<open>f\<close> in a row, and the
  trace the backoff schedule prescribes for \<open>n\<close> calls of provider \<open>k\<close>: every call but
  the first comes after a delay, the delay before call number \<open>j\<close> (counted from 0) is
  \<open>d * 2 ^ j\<close>, every call but the last was rejected, and the last one resolved when
  \<open>ok\<close> holds.
\<close>

primrec ext_after :: "('x \<Rightarrow> ('e + 'a) \<times> 'x) \<Rightarrow> 'x \<Rightarrow> nat \<Rightarrow> 'x" where
  "ext_after f x 0 = x"
| "ext_after f x (Suc j) = ext_after f (snd (f x)) j"

definition retry_trace :: "nat \<Rightarrow> int \<Rightarrow> nat \<Rightarrow> bool \<Rightarrow> event list" where
  "retry_trace k d n ok =
     concat (map (\<lambda>j. (if j = 0 then [] else [Slept (d * 2 ^ j)]) @ [Invoked k (ok \<and> Suc j = n)])
       [0 ..< n])"

text \<open>
  The service and the world as the two branches of the loop body of \<open>send\<close> leave them:
  after the success of provider \<open>i\<close>, and after its failure noticed at time \<open>now\<close>.
\<close>

definition sent_state :: "'i \<Rightarrow> nat \<Rightarrow> ('i, 'x) emailService \<Rightarrow> ('i, 'x) emailService" where
  "sent_state ident i s =
     s\<lparr>sentEmails := insert ident (sentEmails s),
       circuitBreakers := (circuitBreakers s)[i := (circuitBreakers s ! i)\<lparr>failures := 0\<rparr>],
       statusLog := (statusLog s)(ident \<mapsto> ''Sent via '' @ name (providers s ! i))\<rparr>"

definition failed_state :: "nat \<Rightarrow> int \<Rightarrow> ('i, 'x) emailService \<Rightarrow> ('i, 'x) emailService" where
  "failed_state i now s =
     s\<lparr>circuitBreakers := (circuitBreakers s)
          [i := (circuitBreakers s ! i)\<lparr>failures := failures (circuitBreakers s ! i) + 1,
                                         lastFailureTime := now\<rparr>]\<rparr>"

definition failed_world :: "string \<Rightarrow> string \<Rightarrow> 'x world \<Rightarrow> 'x world" where
  "failed_world n err w = w\<lparr>trace := trace w @ [Logged n err], reads := Suc (reads w)\<rparr>"






subsection \<open>A concrete setting\<close>

text \<open>
  The setting of the example at the end of the source file: the providers
  \<^verbatim>\<open>ProviderA\<close> and \<^verbatim>\<open>ProviderB\<close>, a message, and a world whose clock advances by seven
  milliseconds from one reading to the next and whose random source never draws above
  0.7. \<open>ProviderA\<close> is given \<^verbatim>\<open>shouldFail = true\<close>, as a test of the fallback sets it.
  \<open>bare_rejecter\<close> is a provider whose promise is rejected with no value,
  \<^verbatim>\<open>sendEmail() { return Promise.reject(); }\<close>.
\<close>

definition demo_world :: "random_source world" where
  "demo_world =
     \<lparr>ext = \<lparr>above = (\<lambda>k. False), drawn = 0\<rparr>,
      clock = (\<lambda>k. 1000 + 7 * int k), reads = 0, trace = []\<rparr>"

definition demo_email :: email where
  "demo_email = \<lparr>to = ''user0@example.com'', subject = ''Hello''\<rparr>"

definition demo_providers :: "random_source provider list" where
  "demo_providers = [MockEmailProvider ''ProviderA'' True, MockEmailProvider ''ProviderB'' False]"

definition demo_service :: "(string, random_source) emailService" where
  "demo_service = EmailService demo_providers"

definition bare_rejecter :: "random_source provider" where
  "bare_rejecter = \<lparr>name = ''ProviderN'', sendEmail = (\<lambda>e x. (Inl Nullish, x))\<rparr>"

section \<open>The rate limiter\<close>

lemma RateLimiter_allow_eq:
  "RateLimiter_allow rl w =
     (let now = clock w (reads w);
          kept = filter (\<lambda>ts. now - ts < interval rl) (timestamps rl);
          b = (int (length kept) < limit rl)
      in ((b, rl\<lparr>timestamps := (if b then kept @ [now] else kept)\<rparr>), w\<lparr>reads := Suc (reads w)\<rparr>))"
  by (simp add: RateLimiter_allow_def dateNow_def Let_def)

lemma allow_calls_snoc:
  "allow_calls (Suc n) rl w =
     (case allow_calls n rl w of
        (bs, rl1, w1) \<Rightarrow>
          (case RateLimiter_allow rl1 w1 of ((b, rl2), w2) \<Rightarrow> (bs @ [b], rl2, w2)))"
proof (induction n arbitrary: rl w)
  case 0
  show ?case by (simp split: prod.splits)
next
  case (Suc n)
  obtain b rl1 w1 where a: "RateLimiter_allow rl w = ((b, rl1), w1)"
    by (metis surj_pair)
  obtain bs rl2 w2 where c: "allow_calls n rl1 w1 = (bs, rl2, w2)"
    by (metis surj_pair)
  obtain b' rl3 w3 where d: "RateLimiter_allow rl2 w2 = ((b', rl3), w3)"
    by (metis surj_pair)
  have "allow_calls (Suc n) rl1 w1 = (bs @ [b'], rl3, w3)"
    by (simp only: Suc.IH c d prod.case)
  then have l: "allow_calls (Suc (Suc n)) rl w = (b # bs @ [b'], rl3, w3)"
    using a by (simp only: allow_calls.simps(2) [of "Suc n"] prod.case)
  have "allow_calls (Suc n) rl w = (b # bs, rl2, w2)"
    using a c by simp
  then show ?case
    using l d by simp
qed

lemma RateLimiter_allow_admit:
  assumes "\<forall>ts\<in>set (timestamps rl). clock w (reads w) - ts < interval rl"
    and "int (length (timestamps rl)) < limit rl"
  shows "RateLimiter_allow rl w =
     ((True, rl\<lparr>timestamps := timestamps rl @ [clock w (reads w)]\<rparr>), w\<lparr>reads := Suc (reads w)\<rparr>)"
proof -
  have "filter (\<lambda>ts. clock w (reads w) - ts < interval rl) (timestamps rl) = timestamps rl"
    using assms(1) by (simp add: filter_id_conv)
  then show ?thesis
    using assms(2) by (simp add: RateLimiter_allow_eq Let_def)
qed

lemma RateLimiter_allow_reject:
  assumes "\<forall>ts\<in>set (timestamps rl). clock w (reads w) - ts < interval rl"
    and "limit rl \<le> int (length (timestamps rl))"
  shows "RateLimiter_allow rl w = ((False, rl), w\<lparr>reads := Suc (reads w)\<rparr>)"
proof -
  have "filter (\<lambda>ts. clock w (reads w) - ts < interval rl) (timestamps rl) = timestamps rl"
    using assms(1) by (simp add: filter_id_conv)
  then show ?thesis
    using assms(2) by (simp add: RateLimiter_allow_eq Let_def)
qed

lemma allow_calls_fill:
  "timestamps rl = map (clock w) [r ..< reads w] \<Longrightarrow> r \<le> reads w \<Longrightarrow>
   int (reads w - r + n) \<le> limit rl \<Longrightarrow>
   (\<forall>i j. r \<le> i \<and> i \<le> j \<and> j < reads w + n \<longrightarrow> clock w j - clock w i < interval rl) \<Longrightarrow>
   allow_calls n rl w =
     (replicate n True, rl\<lparr>timestamps := map (clock w) [r ..< reads w + n]\<rparr>,
      w\<lparr>reads := reads w + n\<rparr>)"
proof (induction n arbitrary: rl w)
  case 0
  then show ?case by simp
next
  case (Suc n)
  have win: "\<forall>ts\<in>set (timestamps rl). clock w (reads w) - ts < interval rl"
    using Suc.prems by auto
  have "length (timestamps rl) = reads w - r"
    using Suc.prems(1) by simp
  then have len: "int (length (timestamps rl)) < limit rl"
    using Suc.prems(2,3) by simp
  have step: "RateLimiter_allow rl w =
      ((True, rl\<lparr>timestamps := map (clock w) [r ..< Suc (reads w)]\<rparr>), w\<lparr>reads := Suc (reads w)\<rparr>)"
    using Suc.prems(1,2) by (simp add: RateLimiter_allow_admit [OF win len])
  have "allow_calls n (rl\<lparr>timestamps := map (clock w) [r ..< Suc (reads w)]\<rparr>) (w\<lparr>reads := Suc (reads w)\<rparr>)
      = (replicate n True,
         rl\<lparr>timestamps := map (clock w) [r ..< Suc (reads w)]\<rparr>
           \<lparr>timestamps := map (clock (w\<lparr>reads := Suc (reads w)\<rparr>)) [r ..< reads (w\<lparr>reads := Suc (reads w)\<rparr>) + n]\<rparr>,
         w\<lparr>reads := Suc (reads w)\<rparr>\<lparr>reads := reads (w\<lparr>reads := Suc (reads w)\<rparr>) + n\<rparr>)"
    using Suc.prems by (intro Suc.IH) auto
  then show ?case by (simp add: step)
qed

text \<open>
  C3, as stated for every limit \<open>N\<close>, fails at \<open>N = 0\<close>: the first call is rejected, as
  the specification says of call \<open>N + 1\<close>, but a call made after the window has elapsed is
  rejected too, since no list is shorter than 0.
\<close>

theorem RateLimiter_limit_zero_counterexample:
  "limit (RateLimiter 0 20) = int 0 \<and>
   fst (allow_calls 1 (RateLimiter 0 20) demo_world) = [False] \<and>
   interval (RateLimiter 0 20) \<le> clock demo_world 3 - clock demo_world 0 \<and>
   \<not> fst (fst (RateLimiter_allow (fst (snd (allow_calls 1 (RateLimiter 0 20) demo_world)))
         (demo_world\<lparr>reads := 3\<rparr>)))"
  by (simp add: RateLimiter_allow_def dateNow_def RateLimiter_def demo_world_def)

text \<open>
  C3, amended. One call of \<open>allow()\<close> at the reading \<open>now\<close> keeps the timestamps \<open>ts\<close>
  with \<open>now - ts < interval\<close>, so every timestamp older than \<open>now - interval\<close> is dropped
  (and one of age exactly \<open>interval\<close> with it); it answers true exactly when fewer than
  \<open>limit\<close> are left, and pushes \<open>now\<close> in that case only. Consequently, on a fresh
  limiter with limit \<open>N\<close>, when \<open>N + 1\<close> calls fall in one window (any two of their
  readings are less than \<open>interval\<close> apart), the first \<open>N\<close> are admitted and the next
  one is rejected and leaves the limiter as it was. When \<open>N\<close> is at least 1, a call is
  admitted again once the first of these timestamps is \<open>interval\<close> old; a limiter whose
  limit is 0 (or less) rejects every call.
\<close>

theorem RateLimiter_allow_window:
  "(let now = clock w (reads w);
        kept = filter (\<lambda>ts. now - ts < interval rl) (timestamps rl);
        res = fst (RateLimiter_allow rl w)
    in (\<forall>ts\<in>set (timestamps rl). ts < now - interval rl \<longrightarrow> ts \<notin> set kept) \<and>
       fst res = (int (length kept) < limit rl) \<and>
       timestamps (snd res) = (if fst res then kept @ [now] else kept) \<and>
       limit (snd res) = limit rl \<and> interval (snd res) = interval rl) \<and>
   (limit rl = int N \<and> timestamps rl = [] \<and>
    (\<forall>i j. i \<le> j \<and> j \<le> N \<longrightarrow>
       clock w (reads w + j) - clock w (reads w + i) < interval rl) \<longrightarrow>
    (case allow_calls N rl w of
       (bs, rl1, w1) \<Rightarrow>
         bs = replicate N True \<and>
         timestamps rl1 = map (\<lambda>k. clock w (reads w + k)) [0 ..< N] \<and>
         RateLimiter_allow rl1 w1 = ((False, rl1), w1\<lparr>reads := Suc (reads w1)\<rparr>) \<and>
         (\<forall>w2 :: 'x world. 1 \<le> N \<and> interval rl \<le> clock w2 (reads w2) - clock w (reads w) \<longrightarrow>
            fst (fst (RateLimiter_allow rl1 w2))))) \<and>
   (limit rl \<le> 0 \<longrightarrow> \<not> fst (fst (RateLimiter_allow rl w)))"
proof (intro conjI impI)
  assume "limit rl \<le> 0"
  then show "\<not> fst (fst (RateLimiter_allow rl w))"
    by (simp add: RateLimiter_allow_eq Let_def)
next
  show "let now = clock w (reads w);
        kept = filter (\<lambda>ts. now - ts < interval rl) (timestamps rl);
        res = fst (RateLimiter_allow rl w)
    in (\<forall>ts\<in>set (timestamps rl). ts < now - interval rl \<longrightarrow> ts \<notin> set kept) \<and>
       fst res = (int (length kept) < limit rl) \<and>
       timestamps (snd res) = (if fst res then kept @ [now] else kept) \<and>
       limit (snd res) = limit rl \<and> interval (snd res) = interval rl"
    by (simp add: RateLimiter_allow_eq Let_def)
next
  assume h: "limit rl = int N \<and> timestamps rl = [] \<and>
    (\<forall>i j. i \<le> j \<and> j \<le> N \<longrightarrow>
       clock w (reads w + j) - clock w (reads w + i) < interval rl)"
  have win: "\<forall>i j. reads w \<le> i \<and> i \<le> j \<and> j < reads w + N \<longrightarrow> clock w j - clock w i < interval rl"
  proof (intro allI impI)
    fix i j assume a: "reads w \<le> i \<and> i \<le> j \<and> j < reads w + N"
    then have "i - reads w \<le> j - reads w \<and> j - reads w \<le> N" by auto
    with h have "clock w (reads w + (j - reads w)) - clock w (reads w + (i - reads w)) < interval rl"
      by blast
    with a show "clock w j - clock w i < interval rl" by simp
  qed
  have fill: "allow_calls N rl w =
     (replicate N True, rl\<lparr>timestamps := map (clock w) [reads w ..< reads w + N]\<rparr>,
      w\<lparr>reads := reads w + N\<rparr>)"
    using h win by (intro allow_calls_fill) auto
  let ?rl1 = "rl\<lparr>timestamps := map (clock w) [reads w ..< reads w + N]\<rparr>"
  let ?w1 = "w\<lparr>reads := reads w + N\<rparr>"
  have stamps: "map (clock w) [reads w ..< reads w + N] = map (\<lambda>k. clock w (reads w + k)) [0 ..< N]"
    by (simp add: map_add_upt [symmetric] ac_simps)
  have inwin: "\<forall>ts\<in>set (timestamps ?rl1). clock ?w1 (reads ?w1) - ts < interval ?rl1"
  proof
    fix ts assume "ts \<in> set (timestamps ?rl1)"
    then obtain i where i: "reads w \<le> i" "i < reads w + N" "ts = clock w i"
      by auto
    then have "i - reads w \<le> N \<and> N \<le> N" by auto
    with h have "clock w (reads w + N) - clock w (reads w + (i - reads w)) < interval rl"
      by blast
    with i show "clock ?w1 (reads ?w1) - ts < interval ?rl1" by simp
  qed
  have full: "limit ?rl1 \<le> int (length (timestamps ?rl1))"
    using h by simp
  have rej: "RateLimiter_allow ?rl1 ?w1 = ((False, ?rl1), ?w1\<lparr>reads := Suc (reads ?w1)\<rparr>)"
    by (rule RateLimiter_allow_reject [OF inwin full])
  have later: "fst (fst (RateLimiter_allow ?rl1 w2))"
    if a: "1 \<le> N \<and> interval rl \<le> clock w2 (reads w2) - clock w (reads w)" for w2 :: "'x world"
  proof -
    let ?now = "clock w2 (reads w2)"
    let ?p = "\<lambda>ts. ?now - ts < interval rl"
    have "clock w (reads w) \<in> set (map (clock w) [reads w ..< reads w + N])"
      using a by auto
    moreover have "\<not> ?p (clock w (reads w))"
      using a by simp
    ultimately have "length (filter ?p (map (clock w) [reads w ..< reads w + N]))
        < length (map (clock w) [reads w ..< reads w + N])"
      by (rule length_filter_less)
    then have "length (filter ?p (map (clock w) [reads w ..< reads w + N])) < N"
      by simp
    then show ?thesis
      using h by (simp add: RateLimiter_allow_eq Let_def)
  qed
  show "case allow_calls N rl w of
       (bs, rl1, w1) \<Rightarrow>
         bs = replicate N True \<and>
         timestamps rl1 = map (\<lambda>k. clock w (reads w + k)) [0 ..< N] \<and>
         RateLimiter_allow rl1 w1 = ((False, rl1), w1\<lparr>reads := Suc (reads w1)\<rparr>) \<and>
         (\<forall>w2 :: 'x world. 1 \<le> N \<and> interval rl \<le> clock w2 (reads w2) - clock w (reads w) \<longrightarrow>
            fst (fst (RateLimiter_allow rl1 w2)))"
    unfolding fill prod.case
    using rej later stamps by (intro conjI allI impI) simp_all
qed

theorem RateLimiter_allow_window_witness:
  "limit (RateLimiter 2 20) = int 2 \<and> timestamps (RateLimiter 2 20) = [] \<and>
   clock demo_world 2 - clock demo_world 0 < interval (RateLimiter 2 20) \<and>
   fst (allow_calls 3 (RateLimiter 2 20) demo_world) = [True, True, False] \<and>
   timestamps (fst (snd (allow_calls 3 (RateLimiter 2 20) demo_world))) = [1000, 1007] \<and>
   interval (RateLimiter 2 20) \<le> clock demo_world 3 - clock demo_world 0 \<and>
   fst (fst (RateLimiter_allow (fst (snd (allow_calls 3 (RateLimiter 2 20) demo_world)))
     (demo_world\<lparr>reads := 3\<rparr>))) \<and>
   limit (RateLimiter 0 20) \<le> 0 \<and>
   \<not> fst (fst (RateLimiter_allow (RateLimiter 0 20) (demo_world\<lparr>reads := 3\<rparr>)))"
proof -
  have h: "limit (RateLimiter 2 20) = int 2 \<and> timestamps (RateLimiter 2 20) = [] \<and>
   (\<forall>i j. i \<le> j \<and> j \<le> 2 \<longrightarrow>
      clock demo_world (reads demo_world + j) - clock demo_world (reads demo_world + i)
        < interval (RateLimiter 2 20))"
    by (simp add: RateLimiter_def demo_world_def)
  show ?thesis
    using h RateLimiter_allow_window [where rl = "RateLimiter 2 20" and w = demo_world and N = 2]
      RateLimiter_allow_window
        [where rl = "RateLimiter 0 20" and w = "demo_world\<lparr>reads := 3\<rparr>" and N = 0]
    by (simp add: eval_nat_numeral RateLimiter_allow_def dateNow_def RateLimiter_def demo_world_def)
qed

section \<open>Retrying with backoff\<close>

lemma calling_eq:
  "calling k f w =
     (fst (f (ext w)),
      w\<lparr>ext := snd (f (ext w)), trace := trace w @ [Invoked k (\<not> isl (fst (f (ext w))))]\<rparr>)"
  by (simp add: calling_def split: prod.splits)

lemma retry_loop_calling:
  "m = nat (retries - a) \<Longrightarrow> 0 \<le> a \<Longrightarrow> a < retries \<Longrightarrow>
   \<exists>n. 1 \<le> n \<and> a + int n \<le> retries \<and>
     (\<forall>j. Suc j < n \<longrightarrow> isl (fst (f (ext_after f (ext w) j)))) \<and>
     fst (retry_loop (calling k f) retries delay a w)
       = map_sum id Some (fst (f (ext_after f (ext w) (n - 1)))) \<and>
     (isl (fst (retry_loop (calling k f) retries delay a w)) \<longrightarrow> a + int n = retries) \<and>
     trace (snd (retry_loop (calling k f) retries delay a w))
       = trace w @ Invoked k (\<not> isl (fst (retry_loop (calling k f) retries delay a w)) \<and> n = 1) #
           concat (map (\<lambda>j. [Slept (delay * 2 ^ j),
                             Invoked k (\<not> isl (fst (retry_loop (calling k f) retries delay a w)) \<and> Suc j = nat a + n)])
             [nat a + 1 ..< nat a + n]) \<and>
     ext (snd (retry_loop (calling k f) retries delay a w)) = ext_after f (ext w) n \<and>
     clock (snd (retry_loop (calling k f) retries delay a w)) = clock w \<and>
     reads (snd (retry_loop (calling k f) retries delay a w)) = reads w"
proof (induction m arbitrary: a w)
  case 0
  then show ?case by simp
next
  case (Suc m)
  let ?w1 = "w\<lparr>ext := snd (f (ext w)),
               trace := trace w @ [Invoked k (\<not> isl (fst (f (ext w))))]\<rparr>"
  show ?case
  proof (cases "fst (f (ext w))")
    case (Inr v)
    then have "retry_loop (calling k f) retries delay a w = (Inr (Some v), ?w1)"
      using Suc.prems by (subst retry_loop.simps) (simp add: calling_eq)
    then show ?thesis
      using Inr Suc.prems by (intro exI [of _ 1]) simp
  next
    case (Inl e)
    show ?thesis
    proof (cases "retries \<le> a + 1")
      case True
      then have "retry_loop (calling k f) retries delay a w = (Inl e, ?w1)"
        using Inl Suc.prems by (subst retry_loop.simps) (simp add: calling_eq)
      then show ?thesis
        using Inl True Suc.prems by (intro exI [of _ 1]) simp
    next
      case False
      let ?w2 = "setTimeout (delay * 2 ^ nat (a + 1)) ?w1"
      have unf: "retry_loop (calling k f) retries delay a w
          = retry_loop (calling k f) retries delay (a + 1) ?w2"
        using Inl False Suc.prems by (subst retry_loop.simps) (simp add: calling_eq)
      have "\<exists>n. 1 \<le> n \<and> (a + 1) + int n \<le> retries \<and>
         (\<forall>j. Suc j < n \<longrightarrow> isl (fst (f (ext_after f (ext ?w2) j)))) \<and>
         fst (retry_loop (calling k f) retries delay (a + 1) ?w2)
           = map_sum id Some (fst (f (ext_after f (ext ?w2) (n - 1)))) \<and>
         (isl (fst (retry_loop (calling k f) retries delay (a + 1) ?w2)) \<longrightarrow> (a + 1) + int n = retries) \<and>
         trace (snd (retry_loop (calling k f) retries delay (a + 1) ?w2))
           = trace ?w2 @ Invoked k (\<not> isl (fst (retry_loop (calling k f) retries delay (a + 1) ?w2)) \<and> n = 1) #
               concat (map (\<lambda>j. [Slept (delay * 2 ^ j),
                                 Invoked k (\<not> isl (fst (retry_loop (calling k f) retries delay (a + 1) ?w2)) \<and> Suc j = nat (a + 1) + n)])
                 [nat (a + 1) + 1 ..< nat (a + 1) + n]) \<and>
         ext (snd (retry_loop (calling k f) retries delay (a + 1) ?w2)) = ext_after f (ext ?w2) n \<and>
         clock (snd (retry_loop (calling k f) retries delay (a + 1) ?w2)) = clock ?w2 \<and>
         reads (snd (retry_loop (calling k f) retries delay (a + 1) ?w2)) = reads ?w2"
        using Suc.prems False by (intro Suc.IH) auto
      then obtain n where n: "1 \<le> n" "(a + 1) + int n \<le> retries"
        "\<forall>j. Suc j < n \<longrightarrow> isl (fst (f (ext_after f (ext ?w2) j)))"
        "fst (retry_loop (calling k f) retries delay (a + 1) ?w2)
           = map_sum id Some (fst (f (ext_after f (ext ?w2) (n - 1))))"
        "isl (fst (retry_loop (calling k f) retries delay (a + 1) ?w2)) \<longrightarrow> (a + 1) + int n = retries"
        "trace (snd (retry_loop (calling k f) retries delay (a + 1) ?w2))
           = trace ?w2 @ Invoked k (\<not> isl (fst (retry_loop (calling k f) retries delay (a + 1) ?w2)) \<and> n = 1) #
               concat (map (\<lambda>j. [Slept (delay * 2 ^ j),
                                 Invoked k (\<not> isl (fst (retry_loop (calling k f) retries delay (a + 1) ?w2)) \<and> Suc j = nat (a + 1) + n)])
                 [nat (a + 1) + 1 ..< nat (a + 1) + n])"
        "ext (snd (retry_loop (calling k f) retries delay (a + 1) ?w2)) = ext_after f (ext ?w2) n"
        "clock (snd (retry_loop (calling k f) retries delay (a + 1) ?w2)) = clock ?w2"
        "reads (snd (retry_loop (calling k f) retries delay (a + 1) ?w2)) = reads ?w2"
        by blast
      have ext2: "ext ?w2 = snd (f (ext w))"
        by (simp add: setTimeout_def)
      have na: "nat (a + 1) = Suc (nat a)"
        using Suc.prems by simp
      have upt: "[nat a + 1 ..< nat a + Suc n] = Suc (nat a) # [nat (a + 1) + 1 ..< nat (a + 1) + n]"
        using n(1) by (simp add: na upt_conv_Cons)
      have c1: "\<forall>j. Suc j < Suc n \<longrightarrow> isl (fst (f (ext_after f (ext w) j)))"
      proof (intro allI impI)
        fix j assume "Suc j < Suc n"
        then show "isl (fst (f (ext_after f (ext w) j)))"
          using n(3) Inl by (cases j) (simp_all add: setTimeout_def)
      qed
      have c2: "fst (retry_loop (calling k f) retries delay a w)
          = map_sum id Some (fst (f (ext_after f (ext w) (Suc n - 1))))"
        using n(1) n(4) by (cases n) (simp_all add: unf ext2)
      have c3: "trace (snd (retry_loop (calling k f) retries delay a w))
          = trace w @ Invoked k (\<not> isl (fst (retry_loop (calling k f) retries delay a w)) \<and> Suc n = 1) #
             concat (map (\<lambda>j. [Slept (delay * 2 ^ j),
                               Invoked k (\<not> isl (fst (retry_loop (calling k f) retries delay a w)) \<and> Suc j = nat a + Suc n)])
               [nat a + 1 ..< nat a + Suc n])"
        unfolding upt unfolding unf n(6) using n(1) Inl
        by (auto simp: setTimeout_def na)
      have c0: "1 \<le> Suc n" "a + int (Suc n) \<le> retries"
        using n(2) by simp_all
      have c4: "isl (fst (retry_loop (calling k f) retries delay a w)) \<longrightarrow> a + int (Suc n) = retries"
        using n(5) unfolding unf by auto
      have c5: "ext (snd (retry_loop (calling k f) retries delay a w)) = ext_after f (ext w) (Suc n)"
        using n(7) by (simp add: unf ext2)
      have c6: "clock (snd (retry_loop (calling k f) retries delay a w)) = clock w"
        using n(8) by (simp add: unf setTimeout_def)
      have c7: "reads (snd (retry_loop (calling k f) retries delay a w)) = reads w"
        using n(9) by (simp add: unf setTimeout_def)
      show ?thesis
        using c0 c1 c2 c3 c4 c5 c6 c7 by blast
    qed
  qed
qed



lemma delays_append: "delays (xs @ ys) = delays xs @ delays ys"
  by (induction xs rule: delays.induct) simp_all

lemma invocations_append: "invocations (xs @ ys) = invocations xs @ invocations ys"
  by (induction xs rule: invocations.induct) simp_all

lemma resolved_append: "resolved (xs @ ys) = resolved xs + resolved ys"
  by (induction xs rule: resolved.induct) simp_all

lemma retry_trace_Suc:
  "retry_trace k d (Suc n) ok =
     retry_trace k d n False @ (if n = 0 then [] else [Slept (d * 2 ^ n)]) @ [Invoked k ok]"
proof -
  have "concat (map (\<lambda>j. (if j = 0 then [] else [Slept (d * 2 ^ j)]) @ [Invoked k (ok \<and> Suc j = Suc n)])
          [0 ..< n])
      = concat (map (\<lambda>j. (if j = 0 then [] else [Slept (d * 2 ^ j)]) @ [Invoked k False]) [0 ..< n])"
    by (rule arg_cong [where f = concat], rule map_cong) auto
  then show ?thesis
    by (simp add: retry_trace_def)
qed

lemma retry_trace_unfold:
  "retry_trace k d (Suc n) ok =
     Invoked k (ok \<and> Suc n = 1) #
       concat (map (\<lambda>j. [Slept (d * 2 ^ j), Invoked k (ok \<and> Suc j = Suc n)]) [1 ..< Suc n])"
proof -
  let ?F = "\<lambda>j. (if j = 0 then [] else [Slept (d * 2 ^ j)]) @ [Invoked k (ok \<and> Suc j = Suc n)]"
  let ?H = "\<lambda>j. [Slept (d * 2 ^ j), Invoked k (ok \<and> Suc j = Suc n)]"
  have a: "[0 ..< Suc n] = 0 # [1 ..< Suc n]"
    by (simp add: upt_conv_Cons)
  have b: "map ?F [1 ..< Suc n] = map ?H [1 ..< Suc n]"
    by (rule map_cong) auto
  have "retry_trace k d (Suc n) ok = concat (map ?F (0 # [1 ..< Suc n]))"
    by (simp only: retry_trace_def a)
  also have "\<dots> = ?F 0 @ concat (map ?H [1 ..< Suc n])"
    by (simp only: list.map concat.simps b)
  finally show ?thesis
    by (simp del: upt_Suc)
qed

lemma invocations_retry_trace: "invocations (retry_trace k d n ok) = replicate n k"
proof (cases n)
  case 0
  then show ?thesis by (simp add: retry_trace_def)
next
  case (Suc m)
  have "invocations (retry_trace k d m False) = replicate m k"
  proof (induction m)
    case 0
    show ?case by (simp add: retry_trace_def)
  next
    case (Suc m)
    then show ?case
      by (simp add: retry_trace_Suc invocations_append replicate_append_same)
  qed
  then show ?thesis
    unfolding Suc by (simp add: retry_trace_Suc invocations_append replicate_append_same)
qed

lemma delays_retry_trace_False:
  "delays (retry_trace k d n False) = map (\<lambda>j. d * 2 ^ j) [1 ..< n]"
proof (induction n)
  case 0
  show ?case by (simp add: retry_trace_def)
next
  case (Suc n)
  then show ?case
    by (cases "n = 0") (simp_all add: retry_trace_Suc delays_append)
qed

lemma delays_retry_trace: "delays (retry_trace k d n ok) = map (\<lambda>j. d * 2 ^ j) [1 ..< n]"
proof (cases n)
  case 0
  then show ?thesis by (simp add: retry_trace_def)
next
  case (Suc m)
  show ?thesis
    unfolding Suc
    by (cases "m = 0") (simp_all add: retry_trace_Suc delays_append delays_retry_trace_False)
qed

lemma resolved_retry_trace_False: "resolved (retry_trace k d n False) = 0"
proof (induction n)
  case 0
  show ?case by (simp add: retry_trace_def)
next
  case (Suc n)
  then show ?case
    by (cases "n = 0") (simp_all add: retry_trace_Suc resolved_append)
qed

lemma resolved_retry_trace:
  "resolved (retry_trace k d (Suc n) ok) = (if ok then 1 else 0)"
  by (cases "n = 0"; cases ok)
     (simp_all add: retry_trace_Suc resolved_append resolved_retry_trace_False)

lemma backoff_increasing:
  assumes "0 < (d::int)"
  shows "sorted_wrt (<) (map (\<lambda>j. d * 2 ^ j) [m ..< n])"
proof -
  have "sorted_wrt (\<lambda>i j. d * 2 ^ i < d * 2 ^ j) [m ..< n]"
    by (rule sorted_wrt_mono_rel [OF _ sorted_wrt_upt]) (use assms in simp)
  then show ?thesis
    by (simp add: sorted_wrt_map)
qed

lemma last_retry_trace: "last (retry_trace k d (Suc n) ok) = Invoked k ok"
  by (simp add: retry_trace_Suc)

lemma retryWithBackoff_calling:
  "1 \<le> retries \<Longrightarrow>
   \<exists>n. 1 \<le> n \<and> int n \<le> retries \<and>
     (\<forall>j. Suc j < n \<longrightarrow> isl (fst (f (ext_after f (ext w) j)))) \<and>
     fst (retryWithBackoff (calling k f) retries delay w)
       = map_sum id Some (fst (f (ext_after f (ext w) (n - 1)))) \<and>
     (isl (fst (retryWithBackoff (calling k f) retries delay w)) \<longrightarrow> int n = retries) \<and>
     trace (snd (retryWithBackoff (calling k f) retries delay w))
       = trace w @ retry_trace k delay n (\<not> isl (fst (retryWithBackoff (calling k f) retries delay w))) \<and>
     ext (snd (retryWithBackoff (calling k f) retries delay w)) = ext_after f (ext w) n \<and>
     invocations (retry_trace k delay n (\<not> isl (fst (retryWithBackoff (calling k f) retries delay w)))) = replicate n k \<and>
     last (retry_trace k delay n (\<not> isl (fst (retryWithBackoff (calling k f) retries delay w)))) = Invoked k (\<not> isl (fst (retryWithBackoff (calling k f) retries delay w))) \<and>
     delays (retry_trace k delay n (\<not> isl (fst (retryWithBackoff (calling k f) retries delay w)))) = map (\<lambda>j. delay * 2 ^ j) [1 ..< n] \<and>
     (0 < delay \<longrightarrow> sorted_wrt (<) (delays (retry_trace k delay n (\<not> isl (fst (retryWithBackoff (calling k f) retries delay w))))))"
proof -
  assume r: "1 \<le> retries"
  let ?ok = "\<not> isl (fst (retryWithBackoff (calling k f) retries delay w))"
  have "\<exists>n. 1 \<le> n \<and> 0 + int n \<le> retries \<and>
     (\<forall>j. Suc j < n \<longrightarrow> isl (fst (f (ext_after f (ext w) j)))) \<and>
     fst (retry_loop (calling k f) retries delay 0 w)
       = map_sum id Some (fst (f (ext_after f (ext w) (n - 1)))) \<and>
     (isl (fst (retry_loop (calling k f) retries delay 0 w)) \<longrightarrow> 0 + int n = retries) \<and>
     trace (snd (retry_loop (calling k f) retries delay 0 w))
       = trace w @ Invoked k (\<not> isl (fst (retry_loop (calling k f) retries delay 0 w)) \<and> n = 1) #
           concat (map (\<lambda>j. [Slept (delay * 2 ^ j),
                             Invoked k (\<not> isl (fst (retry_loop (calling k f) retries delay 0 w)) \<and> Suc j = nat 0 + n)])
             [nat 0 + 1 ..< nat 0 + n]) \<and>
     ext (snd (retry_loop (calling k f) retries delay 0 w)) = ext_after f (ext w) n \<and>
     clock (snd (retry_loop (calling k f) retries delay 0 w)) = clock w \<and>
     reads (snd (retry_loop (calling k f) retries delay 0 w)) = reads w"
    using r by (intro retry_loop_calling [OF refl]) simp_all
  then obtain n where n: "1 \<le> n" "int n \<le> retries"
     "\<forall>j. Suc j < n \<longrightarrow> isl (fst (f (ext_after f (ext w) j)))"
     "fst (retryWithBackoff (calling k f) retries delay w)
       = map_sum id Some (fst (f (ext_after f (ext w) (n - 1))))"
     "isl (fst (retryWithBackoff (calling k f) retries delay w)) \<longrightarrow> int n = retries"
     "trace (snd (retryWithBackoff (calling k f) retries delay w))
       = trace w @ Invoked k (?ok \<and> n = 1) #
           concat (map (\<lambda>j. [Slept (delay * 2 ^ j), Invoked k (?ok \<and> Suc j = n)]) [1 ..< n])"
     "ext (snd (retryWithBackoff (calling k f) retries delay w)) = ext_after f (ext w) n"
    unfolding retryWithBackoff_def by auto
  from n(1) obtain n' where n': "n = Suc n'"
    by (cases n) auto
  have t: "trace (snd (retryWithBackoff (calling k f) retries delay w)) = trace w @ retry_trace k delay n ?ok"
    unfolding n(6) unfolding n' retry_trace_unfold by simp
  have l: "last (retry_trace k delay n ?ok) = Invoked k ?ok"
    unfolding n' by (rule last_retry_trace)
  have s: "0 < delay \<longrightarrow> sorted_wrt (<) (delays (retry_trace k delay n ?ok))"
    by (simp add: delays_retry_trace backoff_increasing)
  show ?thesis
    by (rule exI [of _ n])
       (intro conjI n(1-5) n(7) t l s invocations_retry_trace delays_retry_trace)
qed


lemma retryWithBackoff_no_retries:
  "retries \<le> 0 \<Longrightarrow> retryWithBackoff fn retries delay w = (Inr None, w)"
  by (simp add: retryWithBackoff_def retry_loop.simps)

section \<open>The loop over the providers\<close>

lemma CircuitBreaker_allow_eq:
  "CircuitBreaker_allow cb w =
     (if failureThreshold cb \<le> failures cb
      then (\<not> clock w (reads w) - lastFailureTime cb < recoveryTime cb, w\<lparr>reads := Suc (reads w)\<rparr>)
      else (True, w))"
  by (simp add: CircuitBreaker_allow_def dateNow_def)

lemma CircuitBreaker_allow_world:
  "CircuitBreaker_allow cb w = (b, w1) \<Longrightarrow>
   trace w1 = trace w \<and> ext w1 = ext w \<and> clock w1 = clock w \<and> reads w \<le> reads w1"
  by (auto simp: CircuitBreaker_allow_eq split: if_splits)



lemma send_loop_done:
  "\<not> i < length (providers s) \<Longrightarrow>
   send_loop retries delay e ident i s w
     = ((Inr ''All providers failed'',
         s\<lparr>statusLog := (statusLog s)(ident \<mapsto> ''All providers failed'')\<rparr>), w)"
  by (subst send_loop.simps) (simp add: trackStatus_def returned_def)

lemma send_loop_skip:
  "i < length (providers s) \<Longrightarrow> CircuitBreaker_allow (circuitBreakers s ! i) w = (False, w1) \<Longrightarrow>
   send_loop retries delay e ident i s w = send_loop retries delay e ident (Suc i) s w1"
  by (subst send_loop.simps) simp

lemma send_loop_success:
  "i < length (providers s) \<Longrightarrow> CircuitBreaker_allow (circuitBreakers s ! i) w = (True, w1) \<Longrightarrow>
   retryWithBackoff (calling i (sendEmail (providers s ! i) e)) retries delay w1 = (Inr v, w2) \<Longrightarrow>
   send_loop retries delay e ident i s w
     = ((Inr (''Sent via '' @ name (providers s ! i)), sent_state ident i s), w2)"
  by (subst send_loop.simps) (simp add: trackStatus_def returned_def reset_def sent_state_def)

lemma send_loop_failure:
  "i < length (providers s) \<Longrightarrow> CircuitBreaker_allow (circuitBreakers s ! i) w = (True, w1) \<Longrightarrow>
   retryWithBackoff (calling i (sendEmail (providers s ! i) e)) retries delay w1
     = (Inl (Rejected msg), w2) \<Longrightarrow>
   send_loop retries delay e ident i s w
     = send_loop retries delay e ident (Suc i) (failed_state i (clock w2 (reads w2)) s)
         (failed_world (name (providers s ! i)) msg w2)"
  by (subst send_loop.simps)
     (simp add: recordFailure_def dateNow_def console_log_def failed_state_def failed_world_def)

lemma send_loop_nullish:
  "i < length (providers s) \<Longrightarrow> CircuitBreaker_allow (circuitBreakers s ! i) w = (True, w1) \<Longrightarrow>
   retryWithBackoff (calling i (sendEmail (providers s ! i) e)) retries delay w1
     = (Inl Nullish, w2) \<Longrightarrow>
   send_loop retries delay e ident i s w = ((Inl TypeError, s), w2)"
  by (subst send_loop.simps) simp

lemma send_loop_induct_cases [consumes 0, case_names exhausted skip success failure nullish]:
  assumes "\<And>i s w. \<not> i < length (providers s) \<Longrightarrow> P i s w"
    and "\<And>i s w w1. i < length (providers s) \<Longrightarrow>
           CircuitBreaker_allow (circuitBreakers s ! i) w = (False, w1) \<Longrightarrow>
           P (Suc i) s w1 \<Longrightarrow> P i s w"
    and "\<And>i s w w1 v w2. i < length (providers s) \<Longrightarrow>
           CircuitBreaker_allow (circuitBreakers s ! i) w = (True, w1) \<Longrightarrow>
           retryWithBackoff (calling i (sendEmail (providers s ! i) e)) retries delay w1 = (Inr v, w2) \<Longrightarrow>
           P i s w"
    and "\<And>i s w w1 msg w2. i < length (providers s) \<Longrightarrow>
           CircuitBreaker_allow (circuitBreakers s ! i) w = (True, w1) \<Longrightarrow>
           retryWithBackoff (calling i (sendEmail (providers s ! i) e)) retries delay w1
             = (Inl (Rejected msg), w2) \<Longrightarrow>
           P (Suc i) (failed_state i (clock w2 (reads w2)) s)
             (failed_world (name (providers s ! i)) msg w2) \<Longrightarrow>
           P i s w"
    and "\<And>i s w w1 w2. i < length (providers s) \<Longrightarrow>
           CircuitBreaker_allow (circuitBreakers s ! i) w = (True, w1) \<Longrightarrow>
           retryWithBackoff (calling i (sendEmail (providers s ! i) e)) retries delay w1
             = (Inl Nullish, w2) \<Longrightarrow>
           P i s w"
  shows "P i (s :: ('i, 'x) emailService) (w :: 'x world)"
proof (induction "length (providers s) - i" arbitrary: i s w)
  case (0 i s w)
  then show ?case using assms(1) by simp
next
  case (Suc m i s w)
  then have lt: "i < length (providers s)" by simp
  obtain b w1 where a: "CircuitBreaker_allow (circuitBreakers s ! i) w = (b, w1)"
    by (metis surj_pair)
  show ?case
  proof (cases b)
    case False
    have p: "P (Suc i) s w1"
      using Suc.hyps(2) by (intro Suc.hyps(1)) simp
    have "CircuitBreaker_allow (circuitBreakers s ! i) w = (False, w1)"
      using a False by simp
    then show ?thesis
      using p by (rule assms(2) [OF lt])
  next
    case True
    then have al: "CircuitBreaker_allow (circuitBreakers s ! i) w = (True, w1)"
      using a by simp
    obtain r w2 where c: "retryWithBackoff (calling i (sendEmail (providers s ! i) e)) retries delay w1 = (r, w2)"
      by (metis surj_pair)
    show ?thesis
    proof (cases r)
      case (Inr v)
      have "retryWithBackoff (calling i (sendEmail (providers s ! i) e)) retries delay w1 = (Inr v, w2)"
        using c Inr by simp
      with al show ?thesis
        by (rule assms(3) [OF lt])
    next
      case (Inl err)
      show ?thesis
      proof (cases err)
        case (Rejected msg)
        have "retryWithBackoff (calling i (sendEmail (providers s ! i) e)) retries delay w1
            = (Inl (Rejected msg), w2)"
          using c Inl Rejected by simp
        moreover have "P (Suc i) (failed_state i (clock w2 (reads w2)) s)
               (failed_world (name (providers s ! i)) msg w2)"
          using Suc.hyps(2) by (intro Suc.hyps(1)) (simp add: failed_state_def)
        ultimately show ?thesis
          by (rule assms(4) [OF lt al])
      next
        case Nullish
        have "retryWithBackoff (calling i (sendEmail (providers s ! i) e)) retries delay w1
            = (Inl Nullish, w2)"
          using c Inl Nullish by simp
        then show ?thesis
          by (rule assms(5) [OF lt al])
      qed
    qed
  qed
qed

lemma send_loop_status:
  "fst (fst (send_loop retries delay e ident i s w)) = Inr out \<longrightarrow>
   statusLog (snd (fst (send_loop retries delay e ident i s w))) ident = Some out"
proof (induction i s w rule: send_loop_induct_cases [where e = e and retries = retries and delay = delay])
  case (exhausted i s w)
  then show ?case by (simp add: send_loop_done)
next
  case (skip i s w w1)
  then show ?case by (simp add: send_loop_skip)
next
  case (success i s w w1 v w2)
  then show ?case by (simp add: send_loop_success sent_state_def)
next
  case (failure i s w w1 msg w2)
  then show ?case by (simp add: send_loop_failure failed_state_def)
next
  case (nullish i s w w1 w2)
  then show ?case by (simp add: send_loop_nullish)
qed

lemma retry_result:
  assumes "1 \<le> retries"
    and "retryWithBackoff (calling k f) retries delay w = (r, w')"
  shows "\<exists>n. 1 \<le> n \<and> int n \<le> retries \<and> (isl r \<longrightarrow> int n = retries) \<and>
           trace w' = trace w @ retry_trace k delay n (\<not> isl r)"
  using retryWithBackoff_calling [OF assms(1), of f w k delay] assms(2) by auto




lemma report_first:
  "P \<or> (Q \<and> R) \<Longrightarrow> (Q \<Longrightarrow> Q') \<Longrightarrow> P \<or> (Q' \<and> R)"
  by blast

text \<open>How many provider calls resolved during a run of the loop.\<close>

lemma send_loop_resolved:
  assumes r: "1 \<le> retries"
  shows "\<exists>new. trace (snd (send_loop retries delay e ident i s w)) = trace w @ new \<and>
     resolved new = (if sent_result (fst (fst (send_loop retries delay e ident i s w))) then 1 else 0)"
proof (induction i s w rule: send_loop_induct_cases [where e = e and retries = retries and delay = delay])
  case (exhausted i s w)
  then show ?case by (simp add: send_loop_done sent_result_def sent_outcome_def)
next
  case (skip i s w w1)
  then show ?case
    using CircuitBreaker_allow_world [OF skip(2)] by (simp add: send_loop_skip)
next
  case (success i s w w1 v w2)
  from retry_result [OF r success(3)] obtain n where n: "1 \<le> n"
    "trace w2 = trace w1 @ retry_trace i delay n True"
    by auto
  from n(1) obtain m where m: "n = Suc m" by (cases n) auto
  have "trace w2 = trace w @ retry_trace i delay n True"
    using n(2) CircuitBreaker_allow_world [OF success(2)] by simp
  moreover have "resolved (retry_trace i delay n True) = 1"
    unfolding m by (simp add: resolved_retry_trace)
  ultimately show ?case
    unfolding send_loop_success [OF success(1,2,3)]
    by (intro exI [of _ "retry_trace i delay n True"]) (simp add: sent_result_def sent_outcome_def)
next
  case (failure i s w w1 msg w2)
  note unf = send_loop_failure [OF failure(1,2,3), of ident]
  from retry_result [OF r failure(3)] obtain n where n: "1 \<le> n"
    "trace w2 = trace w1 @ retry_trace i delay n False"
    by auto
  from failure(4) obtain new where new:
    "trace (snd (send_loop retries delay e ident i s w))
       = trace (failed_world (name (providers s ! i)) msg w2) @ new"
    "resolved new = (if sent_result (fst (fst (send_loop retries delay e ident i s w))) then 1 else 0)"
    unfolding unf by blast
  let ?pre = "retry_trace i delay n False @ [Logged (name (providers s ! i)) msg]"
  have "trace (snd (send_loop retries delay e ident i s w)) = trace w @ (?pre @ new)"
    unfolding new(1) using n(2) CircuitBreaker_allow_world [OF failure(2)]
    by (simp add: failed_world_def)
  moreover have "resolved (?pre @ new) = resolved new"
    by (simp add: resolved_append resolved_retry_trace_False)
  ultimately show ?case
    using new(2) by (intro exI [of _ "?pre @ new"]) simp
next
  case (nullish i s w w1 w2)
  from retry_result [OF r nullish(3)] obtain n where n: "1 \<le> n"
    "trace w2 = trace w1 @ retry_trace i delay n False"
    by auto
  have "trace w2 = trace w @ retry_trace i delay n False"
    using n(2) CircuitBreaker_allow_world [OF nullish(2)] by simp
  then show ?case
    unfolding send_loop_nullish [OF nullish(1,2,3)]
    by (intro exI [of _ "retry_trace i delay n False"])
       (simp add: sent_result_def resolved_retry_trace_False)
qed






section \<open>The service\<close>

lemma sent_outcome_simps:
  "sent_outcome (''Sent via '' @ n)"
  "\<not> sent_outcome ''Rate limited''"
  "\<not> sent_outcome ''Duplicate skipped''"
  "\<not> sent_outcome ''All providers failed''"
  by (simp_all add: sent_outcome_def)

lemma sent_result_simps:
  "sent_result (Inr (''Sent via '' @ n))"
  "\<not> sent_result (Inr ''Rate limited'')"
  "\<not> sent_result (Inr ''Duplicate skipped'')"
  "\<not> sent_result (Inr ''All providers failed'')"
  "\<not> sent_result (Inl x)"
  by (simp_all add: sent_result_def sent_outcome_def)

lemma send_with_eq:
  "send_with retries delay e ident s w =
     (let now = clock w (reads w);
          kept = filter (\<lambda>ts. now - ts < interval (rateLimiter s)) (timestamps (rateLimiter s));
          w1 = w\<lparr>reads := Suc (reads w)\<rparr>
      in if \<not> int (length kept) < limit (rateLimiter s)
         then ((Inr ''Rate limited'',
                s\<lparr>rateLimiter := (rateLimiter s)\<lparr>timestamps := kept\<rparr>,
                  statusLog := (statusLog s)(ident \<mapsto> ''Rate limited'')\<rparr>), w1)
         else if ident \<in> sentEmails s
         then ((Inr ''Duplicate skipped'',
                s\<lparr>rateLimiter := (rateLimiter s)\<lparr>timestamps := kept @ [now]\<rparr>,
                  statusLog := (statusLog s)(ident \<mapsto> ''Duplicate skipped'')\<rparr>), w1)
         else send_loop retries delay e ident 0
                (s\<lparr>rateLimiter := (rateLimiter s)\<lparr>timestamps := kept @ [now]\<rparr>\<rparr>) w1)"
  by (simp add: send_with_def RateLimiter_allow_eq Let_def trackStatus_def returned_def)

lemma send_loop_frame:
  "providers (snd (fst (send_loop retries delay e ident i s w))) = providers s \<and>
   rateLimiter (snd (fst (send_loop retries delay e ident i s w))) = rateLimiter s \<and>
   length (circuitBreakers (snd (fst (send_loop retries delay e ident i s w))))
     = length (circuitBreakers s) \<and>
   (\<forall>j. j \<noteq> ident \<longrightarrow>
      statusLog (snd (fst (send_loop retries delay e ident i s w))) j = statusLog s j)"
proof (induction i s w rule: send_loop_induct_cases [where e = e and retries = retries and delay = delay])
  case (exhausted i s w)
  then show ?case by (simp add: send_loop_done)
next
  case (skip i s w w1)
  then show ?case by (simp add: send_loop_skip)
next
  case (success i s w w1 v w2)
  then show ?case by (simp add: send_loop_success sent_state_def)
next
  case (failure i s w w1 msg w2)
  then show ?case by (simp add: send_loop_failure failed_state_def)
next
  case (nullish i s w w1 w2)
  then show ?case by (simp add: send_loop_nullish)
qed

lemma EmailService_breakers:
  "length (circuitBreakers (EmailService ps)) = length (providers (EmailService ps))"
  by (simp add: EmailService_def)

lemma send_breakers:
  "length (circuitBreakers s) = length (providers s) \<Longrightarrow>
   length (circuitBreakers (snd (fst (send e ident s w))))
     = length (providers (snd (fst (send e ident s w))))"
  by (simp add: send_def send_with_eq Let_def send_loop_frame)

lemma send_loop_result:
  "fst (fst (send_loop retries delay e ident i s w)) = Inr ''All providers failed'' \<or>
   fst (fst (send_loop retries delay e ident i s w)) = Inl TypeError \<or>
   (\<exists>k. k < length (providers s) \<and>
      fst (fst (send_loop retries delay e ident i s w)) = Inr (''Sent via '' @ name (providers s ! k)))"
proof (induction i s w rule: send_loop_induct_cases [where e = e and retries = retries and delay = delay])
  case (exhausted i s w)
  then show ?case by (simp add: send_loop_done)
next
  case (skip i s w w1)
  then show ?case by (simp only: send_loop_skip [OF skip(1,2)])
next
  case (success i s w w1 v w2)
  have "\<exists>k. k < length (providers s) \<and>
      Inr (''Sent via '' @ name (providers s ! i)) = (Inr (''Sent via '' @ name (providers s ! k)) :: exception + string)"
    using success(1) by blast
  then show ?case
    unfolding send_loop_success [OF success(1,2,3)] fst_conv by (intro disjI2)
next
  case (failure i s w w1 msg w2)
  have "providers (failed_state i (clock w2 (reads w2)) s) = providers s"
    by (simp add: failed_state_def)
  with failure(4) show ?case
    by (simp only: send_loop_failure [OF failure(1,2,3)])
next
  case (nullish i s w w1 w2)
  then show ?case by (simp add: send_loop_nullish)
qed

lemma send_loop_sentEmails:
  "sentEmails (snd (fst (send_loop retries delay e ident i s w)))
     = (if sent_result (fst (fst (send_loop retries delay e ident i s w)))
        then insert ident (sentEmails s) else sentEmails s)"
proof (induction i s w rule: send_loop_induct_cases [where e = e and retries = retries and delay = delay])
  case (exhausted i s w)
  then show ?case by (simp add: send_loop_done sent_result_def sent_outcome_def)
next
  case (skip i s w w1)
  then show ?case by (simp only: send_loop_skip [OF skip(1,2)])
next
  case (success i s w w1 v w2)
  show ?case
    unfolding send_loop_success [OF success(1,2,3)]
    by (simp add: sent_state_def sent_result_def sent_outcome_def)
next
  case (failure i s w w1 msg w2)
  have "sentEmails (failed_state i (clock w2 (reads w2)) s) = sentEmails s"
    by (simp add: failed_state_def)
  with failure(4) show ?case
    by (simp only: send_loop_failure [OF failure(1,2,3)])
next
  case (nullish i s w w1 w2)
  then show ?case by (simp add: send_loop_nullish sent_result_def)
qed

lemma send_loop_failures:
  "j < length (circuitBreakers s) \<longrightarrow>
     failures (circuitBreakers (snd (fst (send_loop retries delay e ident i s w))) ! j) = 0 \<or>
     failures (circuitBreakers s ! j)
       \<le> failures (circuitBreakers (snd (fst (send_loop retries delay e ident i s w))) ! j)"
proof (induction i s w rule: send_loop_induct_cases [where e = e and retries = retries and delay = delay])
  case (exhausted i s w)
  then show ?case by (simp add: send_loop_done)
next
  case (skip i s w w1)
  then show ?case by (simp add: send_loop_skip)
next
  case (success i s w w1 v w2)
  then show ?case
    unfolding send_loop_success [OF success(1,2,3)]
    by (cases "j = i") (simp_all add: sent_state_def)
next
  case (nullish i s w w1 w2)
  then show ?case by (simp add: send_loop_nullish)
next
  case (failure i s w w1 msg w2)
  show ?case
  proof
    assume j: "j < length (circuitBreakers s)"
    have "failures (circuitBreakers s ! j)
        \<le> failures (circuitBreakers (failed_state i (clock w2 (reads w2)) s) ! j)"
      using j by (cases "j = i") (simp_all add: failed_state_def)
    moreover have "j < length (circuitBreakers (failed_state i (clock w2 (reads w2)) s))"
      using j by (simp add: failed_state_def)
    ultimately show "failures (circuitBreakers (snd (fst (send_loop retries delay e ident i s w))) ! j) = 0 \<or>
     failures (circuitBreakers s ! j)
       \<le> failures (circuitBreakers (snd (fst (send_loop retries delay e ident i s w))) ! j)"
      unfolding send_loop_failure [OF failure(1,2,3)] using failure(4) by linarith
  qed
qed

lemma send_failures:
  "j < length (circuitBreakers s) \<Longrightarrow>
     failures (circuitBreakers (snd (fst (send e ident s w))) ! j) = 0 \<or>
     failures (circuitBreakers s ! j) \<le> failures (circuitBreakers (snd (fst (send e ident s w))) ! j)"
proof -
  assume j: "j < length (circuitBreakers s)"
  let ?kept = "filter (\<lambda>ts. clock w (reads w) - ts < interval (rateLimiter s)) (timestamps (rateLimiter s))"
  let ?s1 = "s\<lparr>rateLimiter := (rateLimiter s)\<lparr>timestamps := ?kept @ [clock w (reads w)]\<rparr>\<rparr>"
  have "failures (circuitBreakers (snd (fst (send_loop 3 500 e ident 0 ?s1 (w\<lparr>reads := Suc (reads w)\<rparr>)))) ! j) = 0 \<or>
     failures (circuitBreakers s ! j)
       \<le> failures (circuitBreakers (snd (fst (send_loop 3 500 e ident 0 ?s1 (w\<lparr>reads := Suc (reads w)\<rparr>)))) ! j)"
    using send_loop_failures [of j ?s1 3 500 e ident 0 "w\<lparr>reads := Suc (reads w)\<rparr>"] j by simp
  then show ?thesis
    by (simp add: send_def send_with_eq Let_def)
qed

text \<open>An exception leaves the loop only where a provider rejected with a nullish value.\<close>

lemma retry_rejection:
  assumes "retryWithBackoff (calling k f) retries delay w = (Inl err, w')"
  shows "\<exists>x. fst (f x) = Inl err"
proof (cases "1 \<le> retries")
  case True
  from retryWithBackoff_calling [OF True, of f w k delay] obtain n where
    "fst (retryWithBackoff (calling k f) retries delay w)
       = map_sum id Some (fst (f (ext_after f (ext w) (n - 1))))"
    by blast
  then have "map_sum id Some (fst (f (ext_after f (ext w) (n - 1)))) = Inl err"
    using assms by simp
  then have "fst (f (ext_after f (ext w) (n - 1))) = Inl err"
    by (cases "fst (f (ext_after f (ext w) (n - 1)))") simp_all
  then show ?thesis ..
next
  case False
  then show ?thesis
    using assms by (simp add: retryWithBackoff_no_retries)
qed

lemma send_loop_TypeError:
  "fst (fst (send_loop retries delay e ident i s w)) = Inl TypeError \<longrightarrow>
   (\<exists>k x. k < length (providers s) \<and> fst (sendEmail (providers s ! k) e x) = Inl Nullish)"
proof (induction i s w rule: send_loop_induct_cases [where e = e and retries = retries and delay = delay])
  case (exhausted i s w)
  then show ?case by (simp add: send_loop_done)
next
  case (skip i s w w1)
  then show ?case by (simp only: send_loop_skip [OF skip(1,2)])
next
  case (success i s w w1 v w2)
  then show ?case by (simp add: send_loop_success)
next
  case (failure i s w w1 msg w2)
  have "providers (failed_state i (clock w2 (reads w2)) s) = providers s"
    by (simp add: failed_state_def)
  with failure(4) show ?case
    by (simp only: send_loop_failure [OF failure(1,2,3)])
next
  case (nullish i s w w1 w2)
  from retry_rejection [OF nullish(3)] nullish(1) show ?case
    by blast
qed

lemma send_resolved:
  "resolved (drop (length (trace w)) (trace (snd (send e ident s w))))
     = (if sent_result (fst (fst (send e ident s w))) then 1 else 0)"
proof -
  let ?kept = "filter (\<lambda>ts. clock w (reads w) - ts < interval (rateLimiter s)) (timestamps (rateLimiter s))"
  let ?s1 = "s\<lparr>rateLimiter := (rateLimiter s)\<lparr>timestamps := ?kept @ [clock w (reads w)]\<rparr>\<rparr>"
  let ?w1 = "w\<lparr>reads := Suc (reads w)\<rparr>"
  from send_loop_resolved [of 3 500 e ident 0 ?s1 ?w1] obtain new where
    "trace (snd (send_loop 3 500 e ident 0 ?s1 ?w1)) = trace w @ new"
    "resolved new = (if sent_result (fst (fst (send_loop 3 500 e ident 0 ?s1 ?w1))) then 1 else 0)"
    by auto
  then have "resolved (drop (length (trace w)) (trace (snd (send_loop 3 500 e ident 0 ?s1 ?w1))))
      = (if sent_result (fst (fst (send_loop 3 500 e ident 0 ?s1 ?w1))) then 1 else 0)"
    by simp
  then show ?thesis
    by (simp add: send_def send_with_eq Let_def sent_result_simps)
qed

lemma send_sentEmails:
  "sentEmails (snd (fst (send e ident s w)))
     = (if sent_result (fst (fst (send e ident s w))) then insert ident (sentEmails s)
        else sentEmails s)"
  by (simp add: send_def send_with_eq Let_def sent_result_simps send_loop_sentEmails)

lemma send_already_sent:
  "ident \<in> sentEmails s \<Longrightarrow>
   fst (fst (send e ident s w))
     = Inr (if fst (fst (RateLimiter_allow (rateLimiter s) w)) then ''Duplicate skipped''
            else ''Rate limited'') \<and>
   trace (snd (send e ident s w)) = trace w \<and> ext (snd (send e ident s w)) = ext w"
  by (simp add: send_def send_with_eq RateLimiter_allow_eq Let_def)

lemma sends_Cons:
  "sends ((e, ident) # reqs) s w =
     ((fst (fst (send e ident s w)),
       resolved (drop (length (trace w)) (trace (snd (send e ident s w)))))
        # fst (sends reqs (snd (fst (send e ident s w))) (snd (send e ident s w))),
      snd (sends reqs (snd (fst (send e ident s w))) (snd (send e ident s w))))"
  by (simp split: prod.splits)

lemma sends_keeps_sent:
  "ident \<in> sentEmails s \<Longrightarrow> ident \<in> sentEmails (fst (snd (sends reqs s w)))"
proof (induction reqs arbitrary: s w)
  case Nil
  then show ?case by simp
next
  case (Cons req reqs)
  obtain e i where req: "req = (e, i)" by (cases req)
  have "ident \<in> sentEmails (snd (fst (send e i s w)))"
    using Cons.prems by (simp add: send_sentEmails)
  then show ?case
    unfolding req sends_Cons by (simp add: Cons.IH)
qed

lemma sends_no_second_delivery:
  "ident \<in> sentEmails s \<Longrightarrow>
   sum_list (map (\<lambda>(req, ob). if snd req = ident then snd ob else 0)
     (zip reqs (fst (sends reqs s w)))) = 0"
proof (induction reqs arbitrary: s w)
  case Nil
  then show ?case by simp
next
  case (Cons req reqs)
  obtain e i where req: "req = (e, i)" by (cases req)
  have keep: "ident \<in> sentEmails (snd (fst (send e i s w)))"
    using Cons.prems by (simp add: send_sentEmails)
  have "\<not> sent_result (fst (fst (send e ident s w)))"
    using send_already_sent [OF Cons.prems, of e w] by (simp add: sent_result_simps)
  then have "i = ident \<longrightarrow> resolved (drop (length (trace w)) (trace (snd (send e i s w)))) = 0"
    by (simp add: send_resolved)
  then show ?case
    unfolding req sends_Cons using Cons.IH [OF keep] by simp
qed

lemma sends_one_delivery:
  "sum_list (map (\<lambda>(req, ob). if snd req = ident then snd ob else 0)
     (zip reqs (fst (sends reqs s w)))) \<le> 1"
proof (induction reqs arbitrary: s w)
  case Nil
  then show ?case by simp
next
  case (Cons req reqs)
  obtain e i where req: "req = (e, i)" by (cases req)
  show ?case
  proof (cases "i = ident \<and> sent_result (fst (fst (send e i s w)))")
    case True
    then have i: "i = ident"
      by blast
    have o: "sent_result (fst (fst (send e ident s w)))"
      using True unfolding i by blast
    have "ident \<in> sentEmails (snd (fst (send e ident s w)))"
      using o by (simp only: send_sentEmails if_True insertI1)
    from sends_no_second_delivery [OF this] o show ?thesis
      unfolding req i sends_Cons by (simp add: send_resolved)
  next
    case False
    then have "i = ident \<longrightarrow> resolved (drop (length (trace w)) (trace (snd (send e i s w)))) = 0"
      by (simp add: send_resolved)
    then show ?thesis
      unfolding req sends_Cons using Cons.IH by auto
  qed
qed

lemma send_loop_no_retries:
  assumes r: "retries \<le> 0"
  shows "trace (snd (send_loop retries delay e ident i s w)) = trace w \<and>
         ext (snd (send_loop retries delay e ident i s w)) = ext w"
proof (induction i s w rule: send_loop_induct_cases [where e = e and retries = retries and delay = delay])
  case (exhausted i s w)
  then show ?case by (simp add: send_loop_done)
next
  case (skip i s w w1)
  then show ?case
    using CircuitBreaker_allow_world [OF skip(2)] by (simp add: send_loop_skip)
next
  case (success i s w w1 v w2)
  have "w2 = w1"
    using success(3) by (simp add: retryWithBackoff_no_retries [OF r])
  then show ?case
    using CircuitBreaker_allow_world [OF success(2)]
    by (simp add: send_loop_success [OF success(1,2,3)])
next
  case (failure i s w w1 msg w2)
  then show ?case
    by (simp add: retryWithBackoff_no_retries [OF r])
next
  case (nullish i s w w1 w2)
  then show ?case
    by (simp add: retryWithBackoff_no_retries [OF r])
qed


lemma retry_always_nullish:
  assumes "1 \<le> retries" and "\<forall>x. fst (f x) = Inl Nullish"
  shows "\<exists>w2. retryWithBackoff (calling k f) retries delay w = (Inl Nullish, w2) \<and>
           trace w2 = trace w @ retry_trace k delay (nat retries) False"
proof -
  from retryWithBackoff_calling [OF assms(1), of f w k delay] obtain n where
    n: "fst (retryWithBackoff (calling k f) retries delay w)
          = map_sum id Some (fst (f (ext_after f (ext w) (n - 1))))"
       "isl (fst (retryWithBackoff (calling k f) retries delay w)) \<longrightarrow> int n = retries"
       "trace (snd (retryWithBackoff (calling k f) retries delay w))
          = trace w @ retry_trace k delay n (\<not> isl (fst (retryWithBackoff (calling k f) retries delay w)))"
    by blast
  have r: "fst (retryWithBackoff (calling k f) retries delay w) = Inl Nullish"
    unfolding n(1) using assms(2) by simp
  then have "nat retries = n"
    using n(2) by auto
  with r n(3) show ?thesis
    by (metis isl_def prod.collapse)
qed



text \<open>
  A provider with a closed breaker that rejects every call with a nullish value makes
  the loop throw at it: after the calls of the retry schedule, with nothing printed, no
  failure recorded and no status stored.
\<close>

lemma send_loop_throws:
  assumes i: "i < length (providers s)"
    and nu: "\<forall>x. fst (sendEmail (providers s ! i) e x) = Inl Nullish"
    and c: "failures (circuitBreakers s ! i) < failureThreshold (circuitBreakers s ! i)"
  shows "fst (send_loop 3 500 e ident i s w) = (Inl TypeError, s) \<and>
     trace (snd (send_loop 3 500 e ident i s w)) = trace w @ retry_trace i 500 3 False"
proof -
  have a: "CircuitBreaker_allow (circuitBreakers s ! i) w = (True, w)"
    using c by (simp add: CircuitBreaker_allow_eq)
  from retry_always_nullish [of 3 "sendEmail (providers s ! i) e" i 500 w] nu
  obtain w2 where r: "retryWithBackoff (calling i (sendEmail (providers s ! i) e)) 3 500 w = (Inl Nullish, w2)"
    and t: "trace w2 = trace w @ retry_trace i 500 3 False"
    by auto
  show ?thesis
    unfolding send_loop_nullish [OF i a r] using t by simp
qed

subsection \<open>The concrete setting, evaluated\<close>

lemmas demo_defs =
  demo_service_def demo_providers_def demo_world_def demo_email_def
  MockEmailProvider_def MockEmailProvider_sendEmail_def EmailService_def RateLimiter_def
  CircuitBreaker_def bare_rejecter_def

lemmas run_defs =
  send_def send_with_def send_loop.simps retryWithBackoff_def retry_loop.simps
  RateLimiter_allow_def CircuitBreaker_allow_def recordFailure_def reset_def dateNow_def
  setTimeout_def console_log_def calling_def trackStatus_def getStatus_def returned_def

lemma demo_first_send:
  "send demo_email ''email-0'' demo_service demo_world =
     ((Inr ''Sent via ProviderB'',
       demo_service
         \<lparr>rateLimiter := \<lparr>limit = 5, interval = 10000, timestamps = [1000]\<rparr>,
          statusLog := [''email-0'' \<mapsto> ''Sent via ProviderB''],
          sentEmails := {''email-0''},
          circuitBreakers :=
            [\<lparr>failureThreshold = 3, recoveryTime = 10000, failures = 1, lastFailureTime = 1007\<rparr>,
             \<lparr>failureThreshold = 3, recoveryTime = 10000, failures = 0, lastFailureTime = 0\<rparr>]\<rparr>),
      demo_world
        \<lparr>ext := \<lparr>above = (\<lambda>k. False), drawn = 1\<rparr>, reads := 2,
         trace := [Invoked 0 False, Slept 1000, Invoked 0 False, Slept 2000, Invoked 0 False,
                   Logged ''ProviderA'' ''ProviderA failed'', Invoked 1 True]\<rparr>)"
  by (simp add: run_defs demo_defs)

lemma demo_second_send:
  "sends [(demo_email, ''email-1'')]
     (snd (fst (send demo_email ''email-0'' demo_service demo_world)))
     (snd (send demo_email ''email-0'' demo_service demo_world)) =
     ([(Inr ''Sent via ProviderB'', 1)],
       demo_service
         \<lparr>rateLimiter := \<lparr>limit = 5, interval = 10000, timestamps = [1000, 1014]\<rparr>,
          statusLog := [''email-0'' \<mapsto> ''Sent via ProviderB'', ''email-1'' \<mapsto> ''Sent via ProviderB''],
          sentEmails := {''email-1'', ''email-0''},
          circuitBreakers :=
            [\<lparr>failureThreshold = 3, recoveryTime = 10000, failures = 2, lastFailureTime = 1021\<rparr>,
             \<lparr>failureThreshold = 3, recoveryTime = 10000, failures = 0, lastFailureTime = 0\<rparr>]\<rparr>,
      demo_world
        \<lparr>ext := \<lparr>above = (\<lambda>k. False), drawn = 2\<rparr>, reads := 4,
         trace := [Invoked 0 False, Slept 1000, Invoked 0 False, Slept 2000, Invoked 0 False,
                   Logged ''ProviderA'' ''ProviderA failed'', Invoked 1 True,
                   Invoked 0 False, Slept 1000, Invoked 0 False, Slept 2000, Invoked 0 False,
                   Logged ''ProviderA'' ''ProviderA failed'', Invoked 1 True]\<rparr>)"
  unfolding demo_first_send
  by (simp add: run_defs demo_defs)

text \<open>The same service with \<open>ProviderA\<close> replaced by the provider that rejects with no value.\<close>

lemma demo_bare_send:
  "send demo_email ''email-0''
     (EmailService [bare_rejecter, MockEmailProvider ''ProviderB'' False]) demo_world =
     ((Inl TypeError,
       (EmailService [bare_rejecter, MockEmailProvider ''ProviderB'' False])
         \<lparr>rateLimiter := \<lparr>limit = 5, interval = 10000, timestamps = [1000]\<rparr>\<rparr>),
      demo_world
        \<lparr>reads := 1,
         trace := [Invoked 0 False, Slept 1000, Invoked 0 False, Slept 2000, Invoked 0 False]\<rparr>)"
  by (simp add: run_defs demo_defs)


text \<open>
  Every call recorded in the trace is a call the provider answered: a call of provider
  \<open>j\<close> recorded as resolved (or as rejected) is one that \<open>sendEmail\<close> of that provider
  resolved (or rejected) on the message, in some state of the providers' side.
\<close>

lemma Invoked_retry_trace:
  "Invoked j b \<in> set (retry_trace k d n ok) \<Longrightarrow> j = k \<and> (\<exists>m<n. b = (ok \<and> Suc m = n))"
  by (auto simp: retry_trace_def split: if_splits)

lemma retry_answers:
  assumes "retryWithBackoff (calling k f) retries delay w = (r, w')"
  shows "\<exists>new. trace w' = trace w @ new \<and>
     (\<forall>j b. Invoked j b \<in> set new \<longrightarrow> j = k \<and> (\<exists>x. isl (fst (f x)) = (\<not> b)))"
proof (cases "1 \<le> retries")
  case False
  then have "w' = w"
    using assms by (simp add: retryWithBackoff_no_retries)
  then show ?thesis
    by (intro exI [of _ "[]"]) simp
next
  case True
  from retryWithBackoff_calling [OF True, of f w k delay] obtain n where
    n: "\<forall>j. Suc j < n \<longrightarrow> isl (fst (f (ext_after f (ext w) j)))"
       "fst (retryWithBackoff (calling k f) retries delay w)
          = map_sum id Some (fst (f (ext_after f (ext w) (n - 1))))"
       "trace (snd (retryWithBackoff (calling k f) retries delay w))
          = trace w @ retry_trace k delay n (\<not> isl (fst (retryWithBackoff (calling k f) retries delay w)))"
    by blast
  have r: "r = map_sum id Some (fst (f (ext_after f (ext w) (n - 1))))"
    using n(2) assms by simp
  have lastc: "isl (fst (f (ext_after f (ext w) (n - 1)))) = isl r"
    unfolding r by (cases "fst (f (ext_after f (ext w) (n - 1)))") simp_all
  have t: "trace w' = trace w @ retry_trace k delay n (\<not> isl r)"
    using n(3) assms by simp
  have "\<forall>j b. Invoked j b \<in> set (retry_trace k delay n (\<not> isl r))
      \<longrightarrow> j = k \<and> (\<exists>x. isl (fst (f x)) = (\<not> b))"
  proof (intro allI impI)
    fix j b assume "Invoked j b \<in> set (retry_trace k delay n (\<not> isl r))"
    from Invoked_retry_trace [OF this] obtain m where
      m: "j = k" "m < n" "b = (\<not> isl r \<and> Suc m = n)"
      by blast
    show "j = k \<and> (\<exists>x. isl (fst (f x)) = (\<not> b))"
    proof (cases "Suc m = n")
      case True
      then have "isl (fst (f (ext_after f (ext w) (n - 1)))) = (\<not> b)"
        using m(3) lastc by simp
      then show ?thesis
        using m(1) by blast
    next
      case False
      then have "Suc m < n" using m(2) by simp
      then have "isl (fst (f (ext_after f (ext w) m)))"
        using n(1) by blast
      moreover have "\<not> b" using m(3) False by simp
      ultimately have "isl (fst (f (ext_after f (ext w) m))) = (\<not> b)"
        by simp
      then show ?thesis
        using m(1) by blast
    qed
  qed
  with t show ?thesis
    by blast
qed

lemma send_loop_answers:
  "\<exists>new. trace (snd (send_loop retries delay e ident i s w)) = trace w @ new \<and>
     (\<forall>j b. Invoked j b \<in> set new \<longrightarrow>
        j < length (providers s) \<and> (\<exists>x. isl (fst (sendEmail (providers s ! j) e x)) = (\<not> b)))"
proof (induction i s w rule: send_loop_induct_cases [where e = e and retries = retries and delay = delay])
  case (exhausted i s w)
  then show ?case by (simp add: send_loop_done)
next
  case (skip i s w w1)
  then show ?case
    using CircuitBreaker_allow_world [OF skip(2)] by (simp add: send_loop_skip)
next
  case (success i s w w1 v w2)
  from retry_answers [OF success(3)] obtain new where
    new: "trace w2 = trace w1 @ new"
      "\<forall>j b. Invoked j b \<in> set new \<longrightarrow>
         j = i \<and> (\<exists>x. isl (fst (sendEmail (providers s ! i) e x)) = (\<not> b))"
    by blast
  have "trace w2 = trace w @ new"
    using new(1) CircuitBreaker_allow_world [OF success(2)] by simp
  moreover have "\<forall>j b. Invoked j b \<in> set new \<longrightarrow>
        j < length (providers s) \<and> (\<exists>x. isl (fst (sendEmail (providers s ! j) e x)) = (\<not> b))"
    using new(2) success(1) by blast
  ultimately show ?case
    unfolding send_loop_success [OF success(1,2,3)] by (intro exI [of _ new]) simp
next
  case (nullish i s w w1 w2)
  from retry_answers [OF nullish(3)] obtain new where
    new: "trace w2 = trace w1 @ new"
      "\<forall>j b. Invoked j b \<in> set new \<longrightarrow>
         j = i \<and> (\<exists>x. isl (fst (sendEmail (providers s ! i) e x)) = (\<not> b))"
    by blast
  have "trace w2 = trace w @ new"
    using new(1) CircuitBreaker_allow_world [OF nullish(2)] by simp
  moreover have "\<forall>j b. Invoked j b \<in> set new \<longrightarrow>
        j < length (providers s) \<and> (\<exists>x. isl (fst (sendEmail (providers s ! j) e x)) = (\<not> b))"
    using new(2) nullish(1) by blast
  ultimately show ?case
    unfolding send_loop_nullish [OF nullish(1,2,3)] by (intro exI [of _ new]) simp
next
  case (failure i s w w1 msg w2)
  note unf = send_loop_failure [OF failure(1,2,3), of ident]
  have ps: "providers (failed_state i (clock w2 (reads w2)) s) = providers s"
    by (simp add: failed_state_def)
  from retry_answers [OF failure(3)] obtain pre where
    pre: "trace w2 = trace w1 @ pre"
      "\<forall>j b. Invoked j b \<in> set pre \<longrightarrow>
         j = i \<and> (\<exists>x. isl (fst (sendEmail (providers s ! i) e x)) = (\<not> b))"
    by blast
  from failure(4) obtain new where new:
    "trace (snd (send_loop retries delay e ident i s w))
       = trace (failed_world (name (providers s ! i)) msg w2) @ new"
    "\<forall>j b. Invoked j b \<in> set new \<longrightarrow>
        j < length (providers s) \<and> (\<exists>x. isl (fst (sendEmail (providers s ! j) e x)) = (\<not> b))"
    unfolding unf ps by blast
  let ?all = "pre @ [Logged (name (providers s ! i)) msg] @ new"
  have "trace (snd (send_loop retries delay e ident i s w)) = trace w @ ?all"
    unfolding new(1) using pre(1) CircuitBreaker_allow_world [OF failure(2)]
    by (simp add: failed_world_def)
  moreover have "\<forall>j b. Invoked j b \<in> set ?all \<longrightarrow>
        j < length (providers s) \<and> (\<exists>x. isl (fst (sendEmail (providers s ! j) e x)) = (\<not> b))"
  proof (intro allI impI)
    fix j b assume "Invoked j b \<in> set ?all"
    then consider "Invoked j b \<in> set pre" | "Invoked j b \<in> set new"
      by auto
    then show "j < length (providers s) \<and> (\<exists>x. isl (fst (sendEmail (providers s ! j) e x)) = (\<not> b))"
    proof cases
      case 1
      with pre(2) failure(1) show ?thesis by blast
    next
      case 2
      with new(2) show ?thesis by blast
    qed
  qed
  ultimately show ?case
    by (intro exI [of _ ?all] conjI)
qed

lemma send_answers:
  "trace (snd (send e ident s w)) = trace w @ new \<Longrightarrow> Invoked j b \<in> set new \<Longrightarrow>
     j < length (providers s) \<and> (\<exists>x. isl (fst (sendEmail (providers s ! j) e x)) = (\<not> b))"
proof -
  assume t: "trace (snd (send e ident s w)) = trace w @ new" and i: "Invoked j b \<in> set new"
  let ?kept = "filter (\<lambda>ts. clock w (reads w) - ts < interval (rateLimiter s)) (timestamps (rateLimiter s))"
  let ?s1 = "s\<lparr>rateLimiter := (rateLimiter s)\<lparr>timestamps := ?kept @ [clock w (reads w)]\<rparr>\<rparr>"
  let ?w1 = "w\<lparr>reads := Suc (reads w)\<rparr>"
  show ?thesis
  proof (cases "send e ident s w = send_loop 3 500 e ident 0 ?s1 ?w1")
    case True
    from send_loop_answers [of 3 500 e ident 0 ?s1 ?w1] obtain new' where
      n: "trace (snd (send_loop 3 500 e ident 0 ?s1 ?w1)) = trace ?w1 @ new'"
        "\<forall>j b. Invoked j b \<in> set new' \<longrightarrow>
          j < length (providers ?s1) \<and> (\<exists>x. isl (fst (sendEmail (providers ?s1 ! j) e x)) = (\<not> b))"
      by blast
    have "new' = new"
      using t n(1) unfolding True by simp
    with n(2) i show ?thesis
      by simp
  next
    case False
    then have "trace (snd (send e ident s w)) = trace w"
      by (simp add: send_def send_with_eq Let_def split: if_splits)
    with t i show ?thesis by simp
  qed
qed

lemma send_extends: "\<exists>new. trace (snd (send e ident s w)) = trace w @ new"
proof -
  let ?kept = "filter (\<lambda>ts. clock w (reads w) - ts < interval (rateLimiter s)) (timestamps (rateLimiter s))"
  let ?s1 = "s\<lparr>rateLimiter := (rateLimiter s)\<lparr>timestamps := ?kept @ [clock w (reads w)]\<rparr>\<rparr>"
  let ?w1 = "w\<lparr>reads := Suc (reads w)\<rparr>"
  from send_loop_answers [of 3 500 e ident 0 ?s1 ?w1] obtain new where
    "trace (snd (send_loop 3 500 e ident 0 ?s1 ?w1)) = trace w @ new"
    by auto
  then show ?thesis
    by (simp add: send_def send_with_eq Let_def)
qed

lemma send_answers_drop:
  assumes "Invoked j b \<in> set (drop (length (trace w)) (trace (snd (send e ident s w))))"
  shows "j < length (providers s) \<and> (\<exists>x. isl (fst (sendEmail (providers s ! j) e x)) = (\<not> b))"
proof -
  from send_extends [of e ident s w] obtain new where
    n: "trace (snd (send e ident s w)) = trace w @ new"
    by blast
  have "Invoked j b \<in> set new"
    using assms unfolding n by simp
  with n show ?thesis
    by (rule send_answers)
qed

lemma sends_observations:
  "list_all (\<lambda>ob. snd ob = (if sent_result (fst ob) then 1 else 0)) (fst (sends reqs s w))"
proof (induction reqs arbitrary: s w)
  case Nil
  then show ?case by simp
next
  case (Cons req reqs)
  obtain e i where req: "req = (e, i)" by (cases req)
  show ?case
    unfolding req sends_Cons using Cons.IH by (simp add: send_resolved)
qed

section \<open>Properties of send\<close>

text \<open>
  C1. A call of \<open>send\<close> ends with a success outcome exactly when one of the provider
  calls made during it resolved, and then exactly one did; otherwise none did. Each call
  is recorded as \<open>sendEmail\<close> of its provider answered it, in some state of the
  providers' side. When \<open>send\<close> ends with a success outcome the id is marked as sent,
  and after any further calls \<open>reqs\<close> a call for the same id answers
  \<^verbatim>\<open>Duplicate skipped\<close> (or \<^verbatim>\<open>Rate limited\<close>, when the rate limiter rejects it first) and
  leaves the trace and the providers' side untouched: no provider is called. So in any
  sequence of calls, the provider calls that resolved during the calls for a given id
  number at most one, and every call of the sequence is observed with a success outcome
  exactly when a provider call resolved during it.
\<close>

theorem send_idempotent:
  "resolved (drop (length (trace w)) (trace (snd (send e ident s w))))
     = (if sent_result (fst (fst (send e ident s w))) then 1 else 0) \<and>
   (\<forall>j b. Invoked j b \<in> set (drop (length (trace w)) (trace (snd (send e ident s w)))) \<longrightarrow>
      j < length (providers s) \<and>
      (\<exists>x. isl (fst (sendEmail (providers s ! j) e x)) = (\<not> b))) \<and>
   (sent_result (fst (fst (send e ident s w))) \<longrightarrow>
      ident \<in> sentEmails (snd (fst (send e ident s w))) \<and>
      (let r1 = send e ident s w;
           r2 = sends reqs (snd (fst r1)) (snd r1);
           r3 = send e' ident (fst (snd r2)) (snd (snd r2))
       in fst (fst r3)
            = Inr (if fst (fst (RateLimiter_allow (rateLimiter (fst (snd r2))) (snd (snd r2))))
                   then ''Duplicate skipped'' else ''Rate limited'') \<and>
          trace (snd r3) = trace (snd (snd r2)) \<and> ext (snd r3) = ext (snd (snd r2)))) \<and>
   sum_list (map (\<lambda>(req, ob). if snd req = ident then snd ob else 0)
     (zip reqs (fst (sends reqs s w)))) \<le> 1 \<and>
   list_all (\<lambda>ob. snd ob = (if sent_result (fst ob) then 1 else 0)) (fst (sends reqs s w))"
proof (intro conjI impI)
  show "resolved (drop (length (trace w)) (trace (snd (send e ident s w))))
     = (if sent_result (fst (fst (send e ident s w))) then 1 else 0)"
    by (rule send_resolved)
next
  show "\<forall>j b. Invoked j b \<in> set (drop (length (trace w)) (trace (snd (send e ident s w)))) \<longrightarrow>
      j < length (providers s) \<and>
      (\<exists>x. isl (fst (sendEmail (providers s ! j) e x)) = (\<not> b))"
    using send_answers_drop [of _ _ w e ident s] by blast
next
  assume a: "sent_result (fst (fst (send e ident s w)))"
  then show b: "ident \<in> sentEmails (snd (fst (send e ident s w)))"
    by (simp add: send_sentEmails)
  have "ident \<in> sentEmails (fst (snd (sends reqs (snd (fst (send e ident s w))) (snd (send e ident s w)))))"
    by (rule sends_keeps_sent [OF b])
  from send_already_sent [OF this]
  show "let r1 = send e ident s w;
           r2 = sends reqs (snd (fst r1)) (snd r1);
           r3 = send e' ident (fst (snd r2)) (snd (snd r2))
       in fst (fst r3)
            = Inr (if fst (fst (RateLimiter_allow (rateLimiter (fst (snd r2))) (snd (snd r2))))
                   then ''Duplicate skipped'' else ''Rate limited'') \<and>
          trace (snd r3) = trace (snd (snd r2)) \<and> ext (snd r3) = ext (snd (snd r2))"
    unfolding Let_def by blast
next
  show "sum_list (map (\<lambda>(req, ob). if snd req = ident then snd ob else 0)
     (zip reqs (fst (sends reqs s w)))) \<le> 1"
    by (rule sends_one_delivery)
next
  show "list_all (\<lambda>ob. snd ob = (if sent_result (fst ob) then 1 else 0)) (fst (sends reqs s w))"
    by (rule sends_observations)
qed

theorem send_idempotent_witness:
  "sent_result (fst (fst (send demo_email ''email-0'' demo_service demo_world))) \<and>
   resolved (trace (snd (send demo_email ''email-0'' demo_service demo_world))) = 1 \<and>
   fst (fst (send demo_email ''email-0''
     (fst (snd (sends [(demo_email, ''email-1'')]
        (snd (fst (send demo_email ''email-0'' demo_service demo_world)))
        (snd (send demo_email ''email-0'' demo_service demo_world)))))
     (snd (snd (sends [(demo_email, ''email-1'')]
        (snd (fst (send demo_email ''email-0'' demo_service demo_world)))
        (snd (send demo_email ''email-0'' demo_service demo_world))))))) = Inr ''Duplicate skipped'' \<and>
   trace (snd (send demo_email ''email-0''
     (fst (snd (sends [(demo_email, ''email-1'')]
        (snd (fst (send demo_email ''email-0'' demo_service demo_world)))
        (snd (send demo_email ''email-0'' demo_service demo_world)))))
     (snd (snd (sends [(demo_email, ''email-1'')]
        (snd (fst (send demo_email ''email-0'' demo_service demo_world)))
        (snd (send demo_email ''email-0'' demo_service demo_world)))))))
     = [Invoked 0 False, Slept 1000, Invoked 0 False, Slept 2000, Invoked 0 False,
        Logged ''ProviderA'' ''ProviderA failed'', Invoked 1 True,
        Invoked 0 False, Slept 1000, Invoked 0 False, Slept 2000, Invoked 0 False,
        Logged ''ProviderA'' ''ProviderA failed'', Invoked 1 True]"
  using send_idempotent
    [of demo_world demo_email "''email-0''" demo_service "[(demo_email, ''email-1'')]" demo_email]
  unfolding Let_def demo_second_send
  unfolding demo_first_send
  by (simp add: sent_result_def sent_outcome_def RateLimiter_allow_eq demo_defs)



text \<open>
  C5. With \<open>retries\<close> at least 1, \<open>retryWithBackoff\<close> calls \<open>fn\<close> some \<open>n\<close> times,
  \<open>1 \<le> n \<le> retries\<close>: every call before the last was rejected, and the result is that
  of the last call, which is the first one to resolve, or else the error of call number
  \<open>retries\<close>. The trace it adds is \<open>retry_trace\<close>: the calls, separated by the delays
  \<open>delay * 2\<close>, \<open>delay * 4\<close>, ... (strictly increasing when \<open>delay\<close> is positive), and
  ending with a call, so nothing is awaited after the last one; that last call resolved
  exactly when the result is no error.
\<close>

theorem retryWithBackoff_backoff:
  "1 \<le> retries \<Longrightarrow>
   \<exists>n. 1 \<le> n \<and> int n \<le> retries \<and>
     (\<forall>j. Suc j < n \<longrightarrow> isl (fst (f (ext_after f (ext w) j)))) \<and>
     fst (retryWithBackoff (calling k f) retries delay w)
       = map_sum id Some (fst (f (ext_after f (ext w) (n - 1)))) \<and>
     (isl (fst (retryWithBackoff (calling k f) retries delay w)) \<longrightarrow> int n = retries) \<and>
     trace (snd (retryWithBackoff (calling k f) retries delay w))
       = trace w @ retry_trace k delay n (\<not> isl (fst (retryWithBackoff (calling k f) retries delay w))) \<and>
     ext (snd (retryWithBackoff (calling k f) retries delay w)) = ext_after f (ext w) n \<and>
     invocations (retry_trace k delay n (\<not> isl (fst (retryWithBackoff (calling k f) retries delay w))))
       = replicate n k \<and>
     last (retry_trace k delay n (\<not> isl (fst (retryWithBackoff (calling k f) retries delay w))))
       = Invoked k (\<not> isl (fst (retryWithBackoff (calling k f) retries delay w))) \<and>
     delays (retry_trace k delay n (\<not> isl (fst (retryWithBackoff (calling k f) retries delay w))))
       = map (\<lambda>j. delay * 2 ^ j) [1 ..< n] \<and>
     (0 < delay \<longrightarrow>
        sorted_wrt (<) (delays (retry_trace k delay n
          (\<not> isl (fst (retryWithBackoff (calling k f) retries delay w))))))"
  by (rule retryWithBackoff_calling)

theorem retryWithBackoff_backoff_witness:
  "(1::int) \<le> 3 \<and> (0::int) < 500 \<and>
   fst (retryWithBackoff (calling 0 (sendEmail (MockEmailProvider ''ProviderA'' True) demo_email))
          3 500 demo_world) = Inl (Rejected ''ProviderA failed'') \<and>
   trace (snd (retryWithBackoff (calling 0 (sendEmail (MockEmailProvider ''ProviderA'' True) demo_email))
          3 500 demo_world))
     = [Invoked 0 False, Slept 1000, Invoked 0 False, Slept 2000, Invoked 0 False] \<and>
   retryWithBackoff (calling 1 (sendEmail (MockEmailProvider ''ProviderB'' False) demo_email))
          3 500 (demo_world\<lparr>ext := \<lparr>above = (\<lambda>k. k < 1), drawn = 0\<rparr>\<rparr>)
     = (Inr (Some ''ProviderB sent email to user0@example.com''),
        demo_world\<lparr>ext := \<lparr>above = (\<lambda>k. k < 1), drawn = 2\<rparr>,
                    trace := [Invoked 1 False, Slept 1000, Invoked 1 True]\<rparr>)"
proof -
  have h: "(1::int) \<le> 3" by simp
  show ?thesis
    using h retryWithBackoff_backoff [OF h,
        of "sendEmail (MockEmailProvider ''ProviderA'' True) demo_email" demo_world 0 500]
    by (simp add: retryWithBackoff_def retry_loop.simps calling_def setTimeout_def
        MockEmailProvider_def MockEmailProvider_sendEmail_def demo_world_def demo_email_def)
qed

section \<open>The circuit breaker\<close>

text \<open>
  C4. \<open>allow()\<close> answers false exactly when the failure count has reached the threshold
  and less than \<open>recoveryTime\<close> has passed since the last failure; once that time has
  passed it answers true whatever the count. \<open>allow()\<close> returns no breaker (it assigns
  no field), \<open>recordFailure()\<close> adds one to the count, and \<open>reset()\<close> alone sets it to
  zero; accordingly a whole \<open>send\<close> leaves the count of every breaker either at zero or
  no smaller than it was.
\<close>

theorem CircuitBreaker_cooldown:
  "(fst (CircuitBreaker_allow cb w) = False)
     = (failureThreshold cb \<le> failures cb \<and>
        clock w (reads w) - lastFailureTime cb < recoveryTime cb) \<and>
   (recoveryTime cb \<le> clock w (reads w) - lastFailureTime cb \<longrightarrow> fst (CircuitBreaker_allow cb w)) \<and>
   failures (fst (recordFailure cb w)) = failures cb + 1 \<and>
   lastFailureTime (fst (recordFailure cb w)) = clock w (reads w) \<and>
   failureThreshold (fst (recordFailure cb w)) = failureThreshold cb \<and>
   recoveryTime (fst (recordFailure cb w)) = recoveryTime cb \<and>
   reset cb = cb\<lparr>failures := 0\<rparr> \<and>
   (j < length (circuitBreakers s) \<longrightarrow>
      failures (circuitBreakers (snd (fst (send e ident s w'))) ! j) = 0 \<or>
      failures (circuitBreakers s ! j)
        \<le> failures (circuitBreakers (snd (fst (send e ident s w'))) ! j))"
  using send_failures [of j s e ident w']
  by (simp add: CircuitBreaker_allow_eq recordFailure_def reset_def dateNow_def)

theorem CircuitBreaker_cooldown_witness:
  "fst (CircuitBreaker_allow
      \<lparr>failureThreshold = 3, recoveryTime = 10000, failures = 5, lastFailureTime = 1000\<rparr>
      demo_world) = False \<and>
   recoveryTime \<lparr>failureThreshold = 3, recoveryTime = 10000, failures = 5, lastFailureTime = 1000\<rparr>
     \<le> clock (demo_world\<lparr>reads := 2000\<rparr>) (reads (demo_world\<lparr>reads := 2000\<rparr>))
        - lastFailureTime \<lparr>failureThreshold = 3, recoveryTime = 10000, failures = 5, lastFailureTime = 1000\<rparr> \<and>
   fst (CircuitBreaker_allow
      \<lparr>failureThreshold = 3, recoveryTime = 10000, failures = 5, lastFailureTime = 1000\<rparr>
      (demo_world\<lparr>reads := 2000\<rparr>)) \<and>
   failures (fst (recordFailure
      \<lparr>failureThreshold = 3, recoveryTime = 10000, failures = 5, lastFailureTime = 1000\<rparr>
      (demo_world\<lparr>reads := 2000\<rparr>))) = 6 \<and>
   0 < length (circuitBreakers demo_service) \<and>
   failures (circuitBreakers demo_service ! 0) = 0 \<and>
   failures (circuitBreakers (snd (fst (send demo_email ''email-0'' demo_service demo_world))) ! 0) = 1"
  using CircuitBreaker_cooldown
      [where cb = "\<lparr>failureThreshold = 3, recoveryTime = 10000, failures = 5, lastFailureTime = 1000\<rparr>"
         and w = "demo_world\<lparr>reads := 2000\<rparr>" and j = 0 and s = demo_service
         and e = demo_email and ident = "''email-0''" and w' = demo_world]
    CircuitBreaker_cooldown
      [where cb = "\<lparr>failureThreshold = 3, recoveryTime = 10000, failures = 5, lastFailureTime = 1000\<rparr>"
         and w = demo_world and j = 0 and s = demo_service
         and e = demo_email and ident = "''email-0''" and w' = demo_world]
  unfolding demo_first_send
  by (simp add: demo_defs)

section \<open>What send returns\<close>

text \<open>
  C6 does not hold of the code. The \<^verbatim>\<open>catch\<close> block of \<open>send\<close> reads \<^verbatim>\<open>err.message\<close> of
  whatever \<open>retryWithBackoff\<close> rethrew. A provider whose promise is rejected with
  \<^verbatim>\<open>undefined\<close> or \<^verbatim>\<open>null\<close> makes that reading throw a \<^verbatim>\<open>TypeError\<close> inside the \<^verbatim>\<open>catch\<close>
  block, which nothing catches: the promise of \<open>send\<close> is rejected. The result of \<open>send\<close>
  is the \<^verbatim>\<open>TypeError\<close> or one of the four outcomes; it is the \<^verbatim>\<open>TypeError\<close> only if some
  provider of the service can reject with a nullish value; and it is the \<^verbatim>\<open>TypeError\<close>
  when the call is admitted, the id is new, the breaker of the first provider is closed
  and that provider rejects every call with a nullish value: then the provider was
  called three times, nothing was printed, and the stored statuses, the breakers and the
  set of sent ids are as before the call, so no failure is counted and no status
  recorded.
\<close>

theorem send_propagates_TypeError:
  "(fst (fst (send e ident s w)) = Inl TypeError \<or>
    fst (fst (send e ident s w)) = Inr ''Rate limited'' \<or>
    fst (fst (send e ident s w)) = Inr ''Duplicate skipped'' \<or>
    fst (fst (send e ident s w)) = Inr ''All providers failed'' \<or>
    (\<exists>k. k < length (providers s) \<and>
       fst (fst (send e ident s w)) = Inr (''Sent via '' @ name (providers s ! k)))) \<and>
   (fst (fst (send e ident s w)) = Inl TypeError \<longrightarrow>
      (\<exists>k x. k < length (providers s) \<and> fst (sendEmail (providers s ! k) e x) = Inl Nullish)) \<and>
   (fst (fst (RateLimiter_allow (rateLimiter s) w)) \<and> ident \<notin> sentEmails s \<and>
    0 < length (providers s) \<and>
    failures (circuitBreakers s ! 0) < failureThreshold (circuitBreakers s ! 0) \<and>
    (\<forall>x. fst (sendEmail (providers s ! 0) e x) = Inl Nullish) \<longrightarrow>
      fst (fst (send e ident s w)) = Inl TypeError \<and>
      trace (snd (send e ident s w))
        = trace w @ [Invoked 0 False, Slept 1000, Invoked 0 False, Slept 2000, Invoked 0 False] \<and>
      statusLog (snd (fst (send e ident s w))) = statusLog s \<and>
      circuitBreakers (snd (fst (send e ident s w))) = circuitBreakers s \<and>
      sentEmails (snd (fst (send e ident s w))) = sentEmails s)"
proof (intro conjI impI)
  let ?kept = "filter (\<lambda>ts. clock w (reads w) - ts < interval (rateLimiter s)) (timestamps (rateLimiter s))"
  let ?s1 = "s\<lparr>rateLimiter := (rateLimiter s)\<lparr>timestamps := ?kept @ [clock w (reads w)]\<rparr>\<rparr>"
  let ?w1 = "w\<lparr>reads := Suc (reads w)\<rparr>"
  let ?r = "send_loop 3 500 e ident 0 ?s1 ?w1"
  have p: "providers ?s1 = providers s" by simp
  from send_loop_result [of 3 500 e ident 0 ?s1 ?w1]
  show "fst (fst (send e ident s w)) = Inl TypeError \<or>
    fst (fst (send e ident s w)) = Inr ''Rate limited'' \<or>
    fst (fst (send e ident s w)) = Inr ''Duplicate skipped'' \<or>
    fst (fst (send e ident s w)) = Inr ''All providers failed'' \<or>
    (\<exists>k. k < length (providers s) \<and>
       fst (fst (send e ident s w)) = Inr (''Sent via '' @ name (providers s ! k)))"
    unfolding send_def send_with_eq Let_def p by auto
  {
    assume "fst (fst (send e ident s w)) = Inl TypeError"
    then have "fst (fst ?r) = Inl TypeError"
      by (simp add: send_def send_with_eq Let_def split: if_splits)
    with send_loop_TypeError [of 3 500 e ident 0 ?s1 ?w1]
    show "\<exists>k x. k < length (providers s) \<and> fst (sendEmail (providers s ! k) e x) = Inl Nullish"
      unfolding p by blast
  }
  {
    assume h: "fst (fst (RateLimiter_allow (rateLimiter s) w)) \<and> ident \<notin> sentEmails s \<and>
      0 < length (providers s) \<and>
      failures (circuitBreakers s ! 0) < failureThreshold (circuitBreakers s ! 0) \<and>
      (\<forall>x. fst (sendEmail (providers s ! 0) e x) = Inl Nullish)"
    have unf: "send e ident s w = ?r"
      using h by (simp add: send_def send_with_eq RateLimiter_allow_eq Let_def)
    have "fst ?r = (Inl TypeError, ?s1) \<and>
       trace (snd ?r) = trace ?w1 @ retry_trace 0 500 3 False"
    proof (rule send_loop_throws)
      show "0 < length (providers ?s1)" using h by simp
      show "\<forall>x. fst (sendEmail (providers ?s1 ! 0) e x) = Inl Nullish" using h by simp
      show "failures (circuitBreakers ?s1 ! 0) < failureThreshold (circuitBreakers ?s1 ! 0)"
        using h by simp
    qed
    then have r: "fst ?r = (Inl TypeError, ?s1)"
      and t: "trace (snd ?r) = trace w @ retry_trace 0 500 3 False"
      by simp_all
    have rt: "retry_trace 0 500 3 False
        = [Invoked 0 False, Slept 1000, Invoked 0 False, Slept 2000, Invoked 0 False]"
      by (simp add: retry_trace_def eval_nat_numeral)
    show "fst (fst (send e ident s w)) = Inl TypeError"
      unfolding unf r by simp
    show "trace (snd (send e ident s w))
        = trace w @ [Invoked 0 False, Slept 1000, Invoked 0 False, Slept 2000, Invoked 0 False]"
      unfolding unf t rt by simp
    show "statusLog (snd (fst (send e ident s w))) = statusLog s"
      unfolding unf r by simp
    show "circuitBreakers (snd (fst (send e ident s w))) = circuitBreakers s"
      unfolding unf r by simp
    show "sentEmails (snd (fst (send e ident s w))) = sentEmails s"
      unfolding unf r by simp
  }
qed

theorem send_propagates_TypeError_witness:
  "fst (fst (RateLimiter_allow
     (rateLimiter (EmailService [bare_rejecter, MockEmailProvider ''ProviderB'' False]
        :: (string, random_source) emailService)) demo_world)) \<and>
   ''email-0'' \<notin> sentEmails (EmailService [bare_rejecter, MockEmailProvider ''ProviderB'' False]
        :: (string, random_source) emailService) \<and>
   (\<forall>x. fst (sendEmail bare_rejecter demo_email x) = Inl Nullish) \<and>
   send demo_email ''email-0''
     (EmailService [bare_rejecter, MockEmailProvider ''ProviderB'' False]) demo_world =
     ((Inl TypeError,
       (EmailService [bare_rejecter, MockEmailProvider ''ProviderB'' False])
         \<lparr>rateLimiter := \<lparr>limit = 5, interval = 10000, timestamps = [1000]\<rparr>\<rparr>),
      demo_world
        \<lparr>reads := 1,
         trace := [Invoked 0 False, Slept 1000, Invoked 0 False, Slept 2000, Invoked 0 False]\<rparr>) \<and>
   getStatus ''email-0'' (snd (fst (send demo_email ''email-0''
     (EmailService [bare_rejecter, MockEmailProvider ''ProviderB'' False]) demo_world))) = None \<and>
   fst (fst (send demo_email ''email-0'' demo_service demo_world)) = Inr ''Sent via ProviderB''"
proof -
  let ?s = "EmailService [bare_rejecter, MockEmailProvider ''ProviderB'' False]
        :: (string, random_source) emailService"
  have nu: "\<forall>x. fst (sendEmail bare_rejecter demo_email x) = Inl Nullish"
    by (simp add: bare_rejecter_def)
  have hyp: "fst (fst (RateLimiter_allow (rateLimiter ?s) demo_world)) \<and>
      ''email-0'' \<notin> sentEmails ?s \<and> 0 < length (providers ?s) \<and>
      failures (circuitBreakers ?s ! 0) < failureThreshold (circuitBreakers ?s ! 0) \<and>
      (\<forall>x. fst (sendEmail (providers ?s ! 0) demo_email x) = Inl Nullish)"
    by (simp add: EmailService_def RateLimiter_def CircuitBreaker_def RateLimiter_allow_eq
        demo_world_def bare_rejecter_def)
  have thrown: "fst (fst (send demo_email ''email-0'' ?s demo_world)) = Inl TypeError"
    using send_propagates_TypeError [where s = ?s and e = demo_email and ident = "''email-0''" and w = demo_world]
      hyp
    by blast
  have st: "getStatus ''email-0'' (snd (fst (send demo_email ''email-0'' ?s demo_world))) = None"
    unfolding demo_bare_send by (simp add: getStatus_def EmailService_def)
  have sent: "fst (fst (send demo_email ''email-0'' demo_service demo_world)) = Inr ''Sent via ProviderB''"
    unfolding demo_first_send by simp
  show ?thesis
    using thrown
    by (intro conjI hyp [THEN conjunct1] hyp [THEN conjunct2, THEN conjunct1] nu demo_bare_send st sent)
qed

text \<open>
  C7. Whatever path a call of \<open>send\<close> that returns takes, the status stored for its id
  when it returns is the outcome it returns.
\<close>

theorem send_records_status:
  "fst (fst (send e ident s w)) = Inr out \<longrightarrow>
     getStatus ident (snd (fst (send e ident s w))) = Some out"
proof -
  let ?kept = "filter (\<lambda>ts. clock w (reads w) - ts < interval (rateLimiter s)) (timestamps (rateLimiter s))"
  let ?s1 = "s\<lparr>rateLimiter := (rateLimiter s)\<lparr>timestamps := ?kept @ [clock w (reads w)]\<rparr>\<rparr>"
  from send_loop_status [of 3 500 e ident 0 ?s1 "w\<lparr>reads := Suc (reads w)\<rparr>" out]
  show ?thesis
    by (simp add: send_def send_with_eq Let_def getStatus_def)
qed

theorem send_records_status_witness:
  "fst (fst (send demo_email ''email-0'' demo_service demo_world)) = Inr ''Sent via ProviderB'' \<and>
   getStatus ''email-0'' (snd (fst (send demo_email ''email-0'' demo_service demo_world)))
     = Some ''Sent via ProviderB'' \<and>
   send demo_email ''email-0'' (EmailService [MockEmailProvider ''ProviderA'' True]) demo_world
     = ((Inr ''All providers failed'',
         (EmailService [MockEmailProvider ''ProviderA'' True])
           \<lparr>rateLimiter := \<lparr>limit = 5, interval = 10000, timestamps = [1000]\<rparr>,
            statusLog := [''email-0'' \<mapsto> ''All providers failed''],
            circuitBreakers :=
              [\<lparr>failureThreshold = 3, recoveryTime = 10000, failures = 1, lastFailureTime = 1007\<rparr>]\<rparr>),
        demo_world
          \<lparr>reads := 2,
           trace := [Invoked 0 False, Slept 1000, Invoked 0 False, Slept 2000, Invoked 0 False,
                     Logged ''ProviderA'' ''ProviderA failed'']\<rparr>)"
  using send_records_status [of demo_email "''email-0''" demo_service demo_world "''Sent via ProviderB''"]
    send_records_status [of demo_email "''email-0''" "EmailService [MockEmailProvider ''ProviderA'' True]" demo_world
      "''All providers failed''"]
  unfolding demo_first_send
  by (simp add: run_defs demo_defs)

text \<open>
  C8, as the specification states it, does not hold: the constructor checks nothing,
  so a service with no provider is constructed like any other, and the first \<open>send\<close>
  on it is reached and answers \<^verbatim>\<open>All providers failed\<close>.
\<close>

theorem empty_providers_counterexample:
  "providers (EmailService [] :: (string, random_source) emailService) = [] \<and>
   circuitBreakers (EmailService [] :: (string, random_source) emailService) = [] \<and>
   fst (fst (send demo_email ''email-0'' (EmailService []) demo_world)) = Inr ''All providers failed''"
  by (simp add: run_defs demo_defs)

text \<open>
  C8, amended. The constructor accepts the empty provider list and returns a service
  with no provider and no breaker. On a service without providers \<open>send\<close> contacts
  nothing, and answers \<^verbatim>\<open>All providers failed\<close> whenever the rate limiter admits the call
  and the id is not marked as sent; this is what the first \<open>send\<close> on a fresh such
  service returns and records.
\<close>

theorem empty_providers_deferred:
  "(providers s = [] \<longrightarrow>
      fst (fst (send e ident s w))
        = Inr (if fst (fst (RateLimiter_allow (rateLimiter s) w))
               then (if ident \<in> sentEmails s then ''Duplicate skipped'' else ''All providers failed'')
               else ''Rate limited'') \<and>
      trace (snd (send e ident s w)) = trace w \<and> ext (snd (send e ident s w)) = ext w \<and>
      providers (snd (fst (send e ident s w))) = [] \<and>
      sentEmails (snd (fst (send e ident s w))) = sentEmails s) \<and>
   providers (EmailService [] :: ('i, 'x) emailService) = [] \<and>
   circuitBreakers (EmailService [] :: ('i, 'x) emailService) = [] \<and>
   fst (fst (send e ident (EmailService [] :: ('i, 'x) emailService) w)) = Inr ''All providers failed'' \<and>
   getStatus ident (snd (fst (send e ident (EmailService [] :: ('i, 'x) emailService) w)))
     = Some ''All providers failed''"
  by (simp add: send_def send_with_eq RateLimiter_allow_eq Let_def send_loop_done
      EmailService_def RateLimiter_def getStatus_def returned_def trackStatus_def)

theorem empty_providers_deferred_witness:
  "providers (EmailService [] :: (string, random_source) emailService) = [] \<and>
   fst (fst (RateLimiter_allow (rateLimiter (EmailService [] :: (string, random_source) emailService))
     demo_world)) \<and>
   ''email-0'' \<notin> sentEmails (EmailService [] :: (string, random_source) emailService) \<and>
   send demo_email ''email-0'' (EmailService []) demo_world
     = ((Inr ''All providers failed'',
         (EmailService [])
           \<lparr>rateLimiter := \<lparr>limit = 5, interval = 10000, timestamps = [1000]\<rparr>,
            statusLog := [''email-0'' \<mapsto> ''All providers failed'']\<rparr>),
        demo_world\<lparr>reads := 1\<rparr>)"
  using empty_providers_deferred
    [of "EmailService [] :: (string, random_source) emailService" demo_email "''email-0''" demo_world]
  by (simp add: run_defs demo_defs)

text \<open>
  C9. A call of \<open>send\<close> for an id that is already marked as sent, admitted by the rate
  limiter, answers \<^verbatim>\<open>Duplicate skipped\<close>; it calls no provider, awaits and prints
  nothing, and leaves the providers, the breakers and the set of sent ids as they were.
  It does take a slot of the rate limiter (\<open>now\<close> is pushed) and it stores the duplicate
  outcome as the status of the id, which therefore is no success outcome any more.
\<close>

theorem duplicate_send_effects:
  "ident \<in> sentEmails s \<and> fst (fst (RateLimiter_allow (rateLimiter s) w)) \<longrightarrow>
     fst (fst (send e ident s w)) = Inr ''Duplicate skipped'' \<and>
     trace (snd (send e ident s w)) = trace w \<and>
     ext (snd (send e ident s w)) = ext w \<and>
     providers (snd (fst (send e ident s w))) = providers s \<and>
     circuitBreakers (snd (fst (send e ident s w))) = circuitBreakers s \<and>
     sentEmails (snd (fst (send e ident s w))) = sentEmails s \<and>
     timestamps (rateLimiter (snd (fst (send e ident s w))))
       = filter (\<lambda>ts. clock w (reads w) - ts < interval (rateLimiter s)) (timestamps (rateLimiter s))
           @ [clock w (reads w)] \<and>
     getStatus ident (snd (fst (send e ident s w))) = Some ''Duplicate skipped'' \<and>
     getStatus ident (snd (fst (send e ident s w))) \<noteq> Some (''Sent via '' @ n)"
  by (simp add: send_def send_with_eq RateLimiter_allow_eq Let_def getStatus_def)

theorem duplicate_send_effects_witness:
  "getStatus ''email-0'' (snd (fst (send demo_email ''email-0'' demo_service demo_world)))
     = Some ''Sent via ProviderB'' \<and>
   ''email-0'' \<in> sentEmails (snd (fst (send demo_email ''email-0'' demo_service demo_world))) \<and>
   fst (fst (RateLimiter_allow
     (rateLimiter (snd (fst (send demo_email ''email-0'' demo_service demo_world))))
     (snd (send demo_email ''email-0'' demo_service demo_world)))) \<and>
   fst (fst (send demo_email ''email-0''
     (snd (fst (send demo_email ''email-0'' demo_service demo_world)))
     (snd (send demo_email ''email-0'' demo_service demo_world)))) = Inr ''Duplicate skipped'' \<and>
   getStatus ''email-0'' (snd (fst (send demo_email ''email-0''
     (snd (fst (send demo_email ''email-0'' demo_service demo_world)))
     (snd (send demo_email ''email-0'' demo_service demo_world)))))
     = Some ''Duplicate skipped'' \<and>
   timestamps (rateLimiter (snd (fst (send demo_email ''email-0''
     (snd (fst (send demo_email ''email-0'' demo_service demo_world)))
     (snd (send demo_email ''email-0'' demo_service demo_world))))))
     = [1000, 1014]"
  using duplicate_send_effects
    [of "''email-0''" "snd (fst (send demo_email ''email-0'' demo_service demo_world))"
        "snd (send demo_email ''email-0'' demo_service demo_world)" demo_email "''ProviderB''"]
  unfolding demo_first_send
  by (simp add: getStatus_def RateLimiter_allow_eq demo_defs)

text \<open>
  C10. With \<open>retries \<le> 0\<close> the loop body of \<open>retryWithBackoff\<close> never runs: the result
  is \<^verbatim>\<open>undefined\<close> and the world is untouched, whatever \<open>fn\<close> is. A \<open>send\<close> configured
  so calls no provider at all, and when it gets to a provider whose breaker is closed it
  reports that provider as the sender: the id is marked as sent, the breaker is reset
  and the success outcome is stored.
\<close>

theorem no_retries_reported_as_sent:
  "retries \<le> 0 \<longrightarrow>
     retryWithBackoff fn retries delay w = (Inr None, w) \<and>
     trace (snd (send_with retries delay e ident s w)) = trace w \<and>
     ext (snd (send_with retries delay e ident s w)) = ext w \<and>
     (fst (fst (RateLimiter_allow (rateLimiter s) w)) \<and> ident \<notin> sentEmails s \<and>
      0 < length (providers s) \<and>
      failures (circuitBreakers s ! 0) < failureThreshold (circuitBreakers s ! 0) \<and>
      0 < length (circuitBreakers s) \<longrightarrow>
        fst (fst (send_with retries delay e ident s w)) = Inr (''Sent via '' @ name (providers s ! 0)) \<and>
        ident \<in> sentEmails (snd (fst (send_with retries delay e ident s w))) \<and>
        failures (circuitBreakers (snd (fst (send_with retries delay e ident s w))) ! 0) = 0 \<and>
        getStatus ident (snd (fst (send_with retries delay e ident s w)))
          = Some (''Sent via '' @ name (providers s ! 0)))"
proof (intro impI conjI)
  assume r: "retries \<le> 0"
  show "retryWithBackoff fn retries delay w = (Inr None, w)"
    by (rule retryWithBackoff_no_retries [OF r])
  show "trace (snd (send_with retries delay e ident s w)) = trace w"
    by (simp add: send_with_eq Let_def send_loop_no_retries [OF r])
  show "ext (snd (send_with retries delay e ident s w)) = ext w"
    by (simp add: send_with_eq Let_def send_loop_no_retries [OF r])
  assume h: "fst (fst (RateLimiter_allow (rateLimiter s) w)) \<and> ident \<notin> sentEmails s \<and>
      0 < length (providers s) \<and>
      failures (circuitBreakers s ! 0) < failureThreshold (circuitBreakers s ! 0) \<and>
      0 < length (circuitBreakers s)"
  let ?kept = "filter (\<lambda>ts. clock w (reads w) - ts < interval (rateLimiter s)) (timestamps (rateLimiter s))"
  let ?s1 = "s\<lparr>rateLimiter := (rateLimiter s)\<lparr>timestamps := ?kept @ [clock w (reads w)]\<rparr>\<rparr>"
  let ?w1 = "w\<lparr>reads := Suc (reads w)\<rparr>"
  have unf: "send_with retries delay e ident s w = send_loop retries delay e ident 0 ?s1 ?w1"
    using h by (simp add: send_with_eq RateLimiter_allow_eq Let_def)
  have a: "0 < length (providers ?s1)"
    using h by simp
  have b: "CircuitBreaker_allow (circuitBreakers ?s1 ! 0) ?w1 = (True, ?w1)"
    using h by (simp add: CircuitBreaker_allow_eq)
  have c: "retryWithBackoff (calling 0 (sendEmail (providers ?s1 ! 0) e)) retries delay ?w1
      = (Inr None, ?w1)"
    by (rule retryWithBackoff_no_retries [OF r])
  note res = send_loop_success [OF a b c, of ident]
  show "fst (fst (send_with retries delay e ident s w)) = Inr (''Sent via '' @ name (providers s ! 0))"
    unfolding unf res by simp
  show "ident \<in> sentEmails (snd (fst (send_with retries delay e ident s w)))"
    unfolding unf res by (simp add: sent_state_def)
  show "failures (circuitBreakers (snd (fst (send_with retries delay e ident s w))) ! 0) = 0"
    unfolding unf res using h by (simp add: sent_state_def)
  show "getStatus ident (snd (fst (send_with retries delay e ident s w)))
          = Some (''Sent via '' @ name (providers s ! 0))"
    unfolding unf res by (simp add: sent_state_def getStatus_def)
qed

theorem no_retries_reported_as_sent_witness:
  "(0::int) \<le> 0 \<and>
   ''email-0'' \<notin> sentEmails demo_service \<and>
   fst (fst (RateLimiter_allow (rateLimiter demo_service) demo_world)) \<and>
   failures (circuitBreakers demo_service ! 0) < failureThreshold (circuitBreakers demo_service ! 0) \<and>
   sendEmail (providers demo_service ! 0) demo_email (ext demo_world)
     = (Inl (Rejected ''ProviderA failed''), ext demo_world) \<and>
   fst (fst (send_with 0 500 demo_email ''email-0'' demo_service demo_world)) = Inr ''Sent via ProviderA'' \<and>
   trace (snd (send_with 0 500 demo_email ''email-0'' demo_service demo_world)) = [] \<and>
   ''email-0'' \<in> sentEmails (snd (fst (send_with 0 500 demo_email ''email-0'' demo_service demo_world)))"
  using no_retries_reported_as_sent
    [of 0 "calling 0 (sendEmail (providers demo_service ! 0) demo_email)" 500 demo_world
        demo_email "''email-0''" demo_service]
  by (simp add: RateLimiter_allow_eq demo_defs)

end
